theory Spec2Isabelle
  imports Main "HOL-Library.Sublist"
begin

section \<open>PostgreSQL user and role controller (controller.py)\<close>

text \<open>
  A shallow embedding of \<^verbatim>\<open>zilando-CRDs/controller/controller.py\<close>.

  Conventions of the model.
  \<^item> A Python \<^verbatim>\<open>dict\<close> with string keys is an association list with the items in
    insertion order; a Python \<^verbatim>\<open>set\<close> is a duplicate-free list. The iteration order of
    a Python set is unspecified; the model iterates in list order and no theorem below
    depends on that order.
  \<^item> Values are typed as the annotations of the source say (\<^verbatim>\<open>username: str\<close>,
    \<^verbatim>\<open>roles: List[str]\<close>, ...). Python checks none of these at run time; documents
    whose values have other shapes are outside the model.
  \<^item> Everything outside the process (the cluster API, the YAML and JSON libraries, the
    database, the disk) is a field of the record \<open>world\<close>. What the database answers and
    whether a request raises may depend on everything the controller has done so far, so
    these fields take the history of events as an argument.
  \<^item> Log output is not modelled, but for the error that \<^verbatim>\<open>save_state\<close> logs.
\<close>

subsection \<open>Config\<close>

definition SYSTEM_ROLES :: "string list" where
  "SYSTEM_ROLES =
     [''postgres'', ''pg_monitor'', ''pg_read_all_settings'', ''pg_read_all_stats'',
      ''pg_stat_scan_tables'', ''pg_read_server_files'', ''pg_write_server_files'',
      ''pg_execute_server_program'', ''pg_signal_backend'', ''rds_superuser'']"

subsection \<open>Data models\<close>

type_synonym 'v dict = "(string \<times> 'v) list"

definition keys :: "'v dict \<Rightarrow> string list" where
  "keys d = map fst d"

definition dict_get :: "'v dict \<Rightarrow> string \<Rightarrow> 'v option" where
  "dict_get d k = map_of d k"

text \<open>\<^verbatim>\<open>d[k] = v\<close>: an existing key keeps its place, a new key goes last.\<close>

fun dict_set :: "'v dict \<Rightarrow> string \<Rightarrow> 'v \<Rightarrow> 'v dict" where
  "dict_set [] k v = [(k, v)]"
| "dict_set ((k', v') # d) k v =
     (if k' = k then (k, v) # d else (k', v') # dict_set d k v)"

text \<open>\<^verbatim>\<open>a - b\<close> and \<^verbatim>\<open>a & b\<close> on sets.\<close>

definition set_minus :: "string list \<Rightarrow> string list \<Rightarrow> string list" where
  "set_minus a b = filter (\<lambda>x. x \<notin> set b) a"

definition set_inter :: "string list \<Rightarrow> string list \<Rightarrow> string list" where
  "set_inter a b = filter (\<lambda>x. x \<in> set b) a"

record UserSpec =
  username :: string
  database :: string
  roles :: "string list"
  privileges :: "string list dict option"

record ReconciliationStats =
  users_created :: nat
  users_updated :: nat
  users_deleted :: nat
  roles_created :: nat
  roles_deleted :: nat
  drift_detected :: nat
  errors :: nat

definition new_stats :: ReconciliationStats where
  "new_stats = \<lparr>users_created = 0, users_updated = 0, users_deleted = 0, roles_created = 0,
     roles_deleted = 0, drift_detected = 0, errors = 0\<rparr>"

subsection \<open>SQL composition (psycopg2.sql)\<close>

text \<open>
  \<^verbatim>\<open>sql.SQL(s)\<close> is a fragment copied into the statement as it is; \<^verbatim>\<open>sql.Identifier(s)\<close>
  is rendered by the library as \<open>s\<close> between double quotes with every inner double quote
  doubled. A statement is the composed list of fragments together with the bound
  parameters of \<^verbatim>\<open>cursor.execute\<close>.
\<close>

datatype sql_piece = SQL string | Identifier string

type_synonym stmt = "sql_piece list \<times> string list"

definition quote_ident :: "string \<Rightarrow> string" where
  "quote_ident s =
     CHR 0x22 # concat (map (\<lambda>c. if c = CHR 0x22 then [c, c] else [c]) s) @ [CHR 0x22]"

fun as_string_piece :: "sql_piece \<Rightarrow> string" where
  "as_string_piece (SQL s) = s"
| "as_string_piece (Identifier s) = quote_ident s"

definition as_string :: "sql_piece list \<Rightarrow> string" where
  "as_string ps = concat (map as_string_piece ps)"

subsection \<open>The world outside the controller\<close>

datatype query = ListUsers | ListRoles | UserRoles string

datatype call =
    CreateRole string
  | DropRole string
  | DropUser string
  | CreateUser UserSpec
  | UpdateUserRoles string "string list" "string list"

text \<open>
  The history of a cycle: \<open>Call c dry\<close> is an invocation of a mutating method of
  \<^verbatim>\<open>DatabaseClient\<close> with its \<^verbatim>\<open>dry_run\<close> argument, \<open>Select\<close> a read-only query,
  \<open>Execute\<close> a mutating statement passed to \<^verbatim>\<open>cursor.execute\<close>, \<open>SaveState\<close> an
  invocation of \<^verbatim>\<open>StateManager.save_state\<close>.
\<close>

datatype event =
    Call call bool
  | Select query
  | Execute stmt
  | Commit
  | Rollback
  | SaveState "UserSpec dict"

datatype 'a api = ApiRaises | NotFound | Found 'a

record user_data =
  ud_username :: "string option"
  ud_database :: "string option"
  ud_roles :: "string list option"
  ud_privileges :: "string list dict option"

text \<open>
  What \<^verbatim>\<open>yaml.safe_load\<close> makes of the document: it raises \<^verbatim>\<open>yaml.YAMLError\<close>, or
  returns something that is not a mapping, or a mapping whose \<^verbatim>\<open>users\<close> key is absent
  (\<open>None\<close>) or holds a list of mappings.
\<close>

datatype yaml_doc = YamlError | NotMapping | Mapping "user_data list option"

datatype json = JNull | JString string | JArray "json list" | JObject "(string \<times> json) list"

text \<open>
  The state file: \<open>None\<close> when it does not exist; otherwise either text that
  \<^verbatim>\<open>json.load\<close> parses to a value (an object holds the items of the parsed dict) or
  text that it rejects with \<^verbatim>\<open>JSONDecodeError\<close>, which is what a write that stopped
  half way leaves behind.
\<close>

datatype file_content = Json json | NotJson

datatype io_fault = NoFault | OpenFails | WriteFails

record world =
  DB_NAME :: string
  DB_USER :: string
  STATE_FILE :: string
  configmap :: "string api"
  safe_load :: "string \<Rightarrow> yaml_doc"
  secret :: "string \<Rightarrow> string api"
  pg_roles :: "event list \<Rightarrow> (string \<times> bool) list"
  pg_auth_members :: "event list \<Rightarrow> (string \<times> string) list"
  query_raises :: "event list \<Rightarrow> query \<Rightarrow> bool"
  connect_raises :: "event list \<Rightarrow> bool"
  execute_raises :: "event list \<Rightarrow> stmt \<Rightarrow> bool"
  commit_raises :: "event list \<Rightarrow> bool"
  load_fault :: bool
  save_fault :: io_fault

datatype error = AttributeError | TypeError | OutsideModel

subsection \<open>KubernetesClient\<close>

text \<open>
  \<open>configmap w\<close> is what \<^verbatim>\<open>fetch_configmap\<close> ends with once its retries are over:
  an exception, \<^verbatim>\<open>None\<close> for a 404, or the \<^verbatim>\<open>users.yaml\<close> text. \<open>secret w n\<close> is the
  same for the secret named \<open>n\<close>: \<open>NotFound\<close> also stands for a secret without a
  \<^verbatim>\<open>password\<close> field, \<open>ApiRaises\<close> also for a password that does not decode.
\<close>

definition secret_name :: "string \<Rightarrow> string" where
  "secret_name u =
     ''user-'' @ map (\<lambda>c. if c = CHR ''_'' then CHR ''-'' else c) u @ ''-secret''"

definition get_user_password :: "world \<Rightarrow> string \<Rightarrow> string api" where
  "get_user_password w u = secret w (secret_name u)"

subsection \<open>DatabaseClient: queries\<close>

text \<open>
  \<open>pg_roles w h\<close> are the rows \<open>(rolname, rolcanlogin)\<close> of the catalogue when the
  history is \<open>h\<close>; \<open>pg_auth_members w h\<close> the memberships as \<open>(role, member)\<close> names.
\<close>

definition users_query :: "(string \<times> bool) list \<Rightarrow> string list" where
  \<comment> \<open>\<^verbatim>\<open>SELECT rolname FROM pg_roles WHERE rolname NOT IN (system roles)\<close>, as a set\<close>
  "users_query rows = remdups (map fst (filter (\<lambda>r. fst r \<notin> set SYSTEM_ROLES) rows))"

definition roles_query :: "(string \<times> bool) list \<Rightarrow> string list" where
  \<comment> \<open>\<^verbatim>\<open>... WHERE rolname NOT IN (system roles) AND NOT rolcanlogin\<close>, as a set\<close>
  "roles_query rows =
     remdups (map fst (filter (\<lambda>r. fst r \<notin> set SYSTEM_ROLES \<and> \<not> snd r) rows))"

definition user_roles_query :: "(string \<times> string) list \<Rightarrow> string \<Rightarrow> string list" where
  "user_roles_query rows u = remdups (map fst (filter (\<lambda>r. snd r = u) rows))"

definition fetch_existing_users :: "world \<Rightarrow> event list \<Rightarrow> event list \<times> string list option" where
  "fetch_existing_users w h =
     (h @ [Select ListUsers],
      if query_raises w h ListUsers then None else Some (users_query (pg_roles w h)))"

definition fetch_existing_roles :: "world \<Rightarrow> event list \<Rightarrow> event list \<times> string list option" where
  "fetch_existing_roles w h =
     (h @ [Select ListRoles],
      if query_raises w h ListRoles then None else Some (roles_query (pg_roles w h)))"

definition fetch_user_roles ::
  "world \<Rightarrow> event list \<Rightarrow> string \<Rightarrow> event list \<times> string list option" where
  "fetch_user_roles w h u =
     (h @ [Select (UserRoles u)],
      if query_raises w h (UserRoles u) then None
      else Some (user_roles_query (pg_auth_members w h) u))"

subsection \<open>DatabaseClient: mutations\<close>

text \<open>
  \<open>run_stmts\<close> passes the statements to \<^verbatim>\<open>cursor.execute\<close> one after the other and
  stops at the first that raises; the result says whether all of them went through.
\<close>

fun run_stmts :: "world \<Rightarrow> event list \<Rightarrow> stmt list \<Rightarrow> event list \<times> bool" where
  "run_stmts w h [] = (h, True)"
| "run_stmts w h (s # ss) =
     (if execute_raises w h s then (h @ [Execute s], False)
      else run_stmts w (h @ [Execute s]) ss)"

text \<open>
  The methods that work in a transaction have one shape: get a connection, execute,
  commit; on \<^verbatim>\<open>psycopg2.Error\<close> roll back (when there is a connection) and raise again.
  The result is \<open>True\<close> when the method returns and \<open>False\<close> when it raises.
\<close>

definition in_transaction :: "world \<Rightarrow> event list \<Rightarrow> stmt list \<Rightarrow> event list \<times> bool" where
  "in_transaction w h ss =
     (if connect_raises w h then (h, False)
      else case run_stmts w h ss of
             (h', False) \<Rightarrow> (h' @ [Rollback], False)
           | (h', True) \<Rightarrow>
               if commit_raises w h' then (h' @ [Rollback], False) else (h' @ [Commit], True))"

definition create_role_sql :: "string \<Rightarrow> stmt" where
  "create_role_sql role_name = ([SQL ''CREATE ROLE '', Identifier role_name, SQL '' NOLOGIN;''], [])"

definition create_role :: "world \<Rightarrow> event list \<Rightarrow> string \<Rightarrow> bool \<Rightarrow> event list \<times> bool" where
  "create_role w h role_name dry_run =
     (let h0 = h @ [Call (CreateRole role_name) dry_run] in
      if dry_run then (h0, True)
      else if connect_raises w h0 then (h0, False)
      else run_stmts w h0 [create_role_sql role_name])"

definition drop_role_sql :: "string \<Rightarrow> stmt" where
  "drop_role_sql role_name = ([SQL ''DROP ROLE IF EXISTS '', Identifier role_name, SQL '';''], [])"

text \<open>\<^verbatim>\<open>drop_role\<close> is called nowhere: the clean-up of unused roles is commented out.\<close>

definition drop_role :: "world \<Rightarrow> event list \<Rightarrow> string \<Rightarrow> bool \<Rightarrow> event list \<times> bool" where
  "drop_role w h role_name dry_run =
     (let h0 = h @ [Call (DropRole role_name) dry_run] in
      if dry_run then (h0, True)
      else if connect_raises w h0 then (h0, False)
      else run_stmts w h0 [drop_role_sql role_name])"

definition grant_role_sql :: "string \<Rightarrow> string \<Rightarrow> stmt" where
  "grant_role_sql role u = ([SQL ''GRANT '', Identifier role, SQL '' TO '', Identifier u, SQL '';''], [])"

definition revoke_role_sql :: "string \<Rightarrow> string \<Rightarrow> stmt" where
  "revoke_role_sql role u =
     ([SQL ''REVOKE '', Identifier role, SQL '' FROM '', Identifier u, SQL '';''], [])"

definition grant_privilege_sql :: "string \<Rightarrow> string \<Rightarrow> string \<Rightarrow> stmt" where
  "grant_privilege_sql privilege object_type u =
     ([SQL ''GRANT '', SQL privilege, SQL '' ON '', Identifier object_type, SQL '' TO '',
       Identifier u, SQL '';''], [])"

definition grant_privileges :: "UserSpec \<Rightarrow> stmt list" where
  \<comment> \<open>\<^verbatim>\<open>_grant_privileges\<close>: the statements it executes, in order\<close>
  "grant_privileges user_spec =
     (case privileges user_spec of
        None \<Rightarrow> []
      | Some d \<Rightarrow>
          concat (map (\<lambda>(object_type, privileges_list).
                    map (\<lambda>privilege. grant_privilege_sql privilege object_type (username user_spec))
                      privileges_list) d))"

definition create_user_sql :: "UserSpec \<Rightarrow> string \<Rightarrow> stmt list" where
  \<comment> \<open>the statements of \<^verbatim>\<open>create_user\<close>, in order\<close>
  "create_user_sql user_spec password =
     [([SQL ''CREATE USER '', Identifier (username user_spec), SQL '' WITH PASSWORD %s;''],
       [password]),
      ([SQL ''GRANT CONNECT ON DATABASE '', Identifier (database user_spec), SQL '' TO '',
        Identifier (username user_spec), SQL '';''], [])]
     @ map (\<lambda>role. grant_role_sql role (username user_spec)) (roles user_spec)
     @ (if privileges user_spec \<noteq> None \<and> privileges user_spec \<noteq> Some []
        then grant_privileges user_spec else [])"

definition create_user ::
  "world \<Rightarrow> event list \<Rightarrow> UserSpec \<Rightarrow> string \<Rightarrow> bool \<Rightarrow> event list \<times> bool" where
  "create_user w h user_spec password dry_run =
     (let h0 = h @ [Call (CreateUser user_spec) dry_run] in
      if dry_run then (h0, True)
      else in_transaction w h0 (create_user_sql user_spec password))"

definition update_user_roles ::
  "world \<Rightarrow> event list \<Rightarrow> string \<Rightarrow> string list \<Rightarrow> string list \<Rightarrow> bool \<Rightarrow> event list \<times> bool" where
  "update_user_roles w h u old_roles new_roles dry_run =
     (let h0 = h @ [Call (UpdateUserRoles u old_roles new_roles) dry_run];
          to_revoke = set_minus old_roles new_roles;
          to_grant = set_minus new_roles old_roles in
      if to_revoke = [] \<and> to_grant = [] then (h0, True)
      else if dry_run then (h0, True)
      else in_transaction w h0
             (map (\<lambda>role. revoke_role_sql role u) to_revoke
              @ map (\<lambda>role. grant_role_sql role u) to_grant))"

definition drop_user_sql :: "world \<Rightarrow> string \<Rightarrow> stmt list" where
  "drop_user_sql w u =
     [([SQL ''REVOKE ALL PRIVILEGES ON DATABASE '', Identifier (DB_NAME w), SQL '' FROM '',
        Identifier u, SQL '';''], []),
      ([SQL ''REASSIGN OWNED BY '', Identifier u, SQL '' TO '', Identifier (DB_USER w),
        SQL '';''], []),
      ([SQL ''DROP OWNED BY '', Identifier u, SQL '';''], []),
      ([SQL ''DROP USER IF EXISTS '', Identifier u, SQL '';''], [])]"

definition drop_user :: "world \<Rightarrow> event list \<Rightarrow> string \<Rightarrow> bool \<Rightarrow> event list \<times> bool" where
  "drop_user w h u dry_run =
     (let h0 = h @ [Call (DropUser u) dry_run] in
      if dry_run then (h0, True)
      else in_transaction w h0 (drop_user_sql w u))"

subsection \<open>StateManager\<close>

definition asdict :: "UserSpec \<Rightarrow> json" where
  "asdict spec =
     JObject
       [(''username'', JString (username spec)),
        (''database'', JString (database spec)),
        (''roles'', JArray (map JString (roles spec))),
        (''privileges'',
           case privileges spec of
             None \<Rightarrow> JNull
           | Some d \<Rightarrow> JObject (map (\<lambda>(k, ps). (k, JArray (map JString ps))) d))]"

text \<open>
  Reading JSON values back at the types of the record. \<open>None\<close> means that the value has
  another shape; Python would store it in the object all the same.
\<close>

fun strings_of :: "json list \<Rightarrow> string list option" where
  "strings_of [] = Some []"
| "strings_of (JString s # js) = map_option (Cons s) (strings_of js)"
| "strings_of (_ # js) = None"

fun privilege_items_of :: "(string \<times> json) list \<Rightarrow> string list dict option" where
  "privilege_items_of [] = Some []"
| "privilege_items_of ((k, JArray js) # rest) =
     (case strings_of js of
        None \<Rightarrow> None
      | Some ps \<Rightarrow> map_option (Cons (k, ps)) (privilege_items_of rest))"
| "privilege_items_of (_ # rest) = None"

fun privileges_of :: "json option \<Rightarrow> string list dict option option" where
  "privileges_of None = Some None"
| "privileges_of (Some JNull) = Some None"
| "privileges_of (Some (JObject items)) = map_option Some (privilege_items_of items)"
| "privileges_of (Some _) = None"

definition UserSpec_fields :: "string list" where
  "UserSpec_fields = [''username'', ''database'', ''roles'', ''privileges'']"

text \<open>
  \<^verbatim>\<open>UserSpec(**spec)\<close>: \<^verbatim>\<open>TypeError\<close> when \<open>spec\<close> is not a mapping, has a key that
  is no field, or lacks one of the three fields without a default.
\<close>

definition UserSpec_of :: "json \<Rightarrow> error + UserSpec" where
  "UserSpec_of spec =
     (case spec of
        JObject kw \<Rightarrow>
          if \<not> list_all (\<lambda>k. k \<in> set UserSpec_fields) (keys kw) then Inl TypeError
          else
            (case (dict_get kw ''username'', dict_get kw ''database'', dict_get kw ''roles'') of
               (Some ju, Some jd, Some jr) \<Rightarrow>
                 (case (ju, jd, jr, privileges_of (dict_get kw ''privileges'')) of
                    (JString u, JString d, JArray js, Some p) \<Rightarrow>
                      (case strings_of js of
                         Some r \<Rightarrow>
                           Inr \<lparr>username = u, database = d, roles = r, privileges = p\<rparr>
                       | None \<Rightarrow> Inl OutsideModel)
                  | _ \<Rightarrow> Inl OutsideModel)
             | _ \<Rightarrow> Inl TypeError)
      | _ \<Rightarrow> Inl TypeError)"

fun load_items :: "(string \<times> json) list \<Rightarrow> error + UserSpec dict" where
  "load_items [] = Inr []"
| "load_items ((k, v) # rest) =
     (case UserSpec_of v of
        Inl e \<Rightarrow> Inl e
      | Inr spec \<Rightarrow>
          (case load_items rest of Inl e \<Rightarrow> Inl e | Inr d \<Rightarrow> Inr ((k, spec) # d)))"

text \<open>
  \<^verbatim>\<open>load_state\<close> catches \<^verbatim>\<open>JSONDecodeError\<close> and \<^verbatim>\<open>IOError\<close> only: a document that is
  not an object (\<^verbatim>\<open>data.items()\<close>) or an entry that \<^verbatim>\<open>UserSpec(**spec)\<close> rejects raises.
\<close>

definition load_state :: "world \<Rightarrow> file_content option \<Rightarrow> error + UserSpec dict" where
  "load_state w file =
     (case file of
        None \<Rightarrow> Inr []
      | Some content \<Rightarrow>
          if load_fault w then Inr []
          else (case content of
                  NotJson \<Rightarrow> Inr []
                | Json (JObject items) \<Rightarrow> load_items items
                | Json _ \<Rightarrow> Inl AttributeError))"

text \<open>
  The disk maps a path to what the file there holds. Opening a path for writing creates
  the file or empties it, and an empty file is text that \<^verbatim>\<open>json.load\<close> rejects;
  \<^verbatim>\<open>json.dump\<close> then leaves the whole document there, or part of it when the write
  fails on the way. \<open>disk_op\<close> lists what a program can ask of the disk, so that the
  requests of \<^verbatim>\<open>save_state\<close> can be told from others.
\<close>

type_synonym disk = "string \<Rightarrow> file_content option"

datatype disk_op = OpenForWriting string | DumpJson string | Rename string string | Remove string

definition open_for_writing :: "disk \<Rightarrow> string \<Rightarrow> disk" where
  "open_for_writing d path = d(path \<mapsto> NotJson)"

definition json_dump :: "disk \<Rightarrow> string \<Rightarrow> json \<Rightarrow> bool \<Rightarrow> disk" where
  "json_dump d path data complete = d(path \<mapsto> (if complete then Json data else NotJson))"

record saved =
  disk_after :: disk
  disk_ops :: "disk_op list"
  error_logged :: bool

text \<open>
  \<^verbatim>\<open>save_state\<close> on the disk: it builds the data, opens \<^verbatim>\<open>self.state_file\<close> itself with
  mode \<^verbatim>\<open>'w'\<close> and dumps the JSON into it. An \<^verbatim>\<open>IOError\<close> of the \<^verbatim>\<open>open\<close> or of the
  dump is caught and logged with \<^verbatim>\<open>logger.error\<close>; the method returns in every case.
\<close>

definition save_state_disk :: "world \<Rightarrow> disk \<Rightarrow> UserSpec dict \<Rightarrow> saved" where
  "save_state_disk w d users =
     (let data = JObject (map (\<lambda>(u, spec). (u, asdict spec)) users);
          path = STATE_FILE w
      in case save_fault w of
           OpenFails \<Rightarrow>
             \<lparr>disk_after = d, disk_ops = [OpenForWriting path], error_logged = True\<rparr>
         | WriteFails \<Rightarrow>
             \<lparr>disk_after = json_dump (open_for_writing d path) path data False,
              disk_ops = [OpenForWriting path, DumpJson path], error_logged = True\<rparr>
         | NoFault \<Rightarrow>
             \<lparr>disk_after = json_dump (open_for_writing d path) path data True,
              disk_ops = [OpenForWriting path, DumpJson path], error_logged = False\<rparr>)"

text \<open>
  The cycle touches no file but the state file, so its state keeps the content of that
  file only: \<open>save_state w file users\<close> is the state file after \<^verbatim>\<open>save_state\<close>, on a
  disk where it held \<open>file\<close> before.
\<close>

definition save_state :: "world \<Rightarrow> file_content option \<Rightarrow> UserSpec dict \<Rightarrow> file_content option" where
  "save_state w file users =
     disk_after (save_state_disk w (\<lambda>path. if path = STATE_FILE w then file else None) users)
       (STATE_FILE w)"

subsection \<open>PostgresUserController\<close>

record ctl =
  history :: "event list"
  stats :: ReconciliationStats
  state_file :: "file_content option"
  users_managed :: nat
  roles_managed :: nat

definition inc_errors :: "ctl \<Rightarrow> ctl" where
  "inc_errors c = c\<lparr>stats := (stats c)\<lparr>errors := errors (stats c) + 1\<rparr>\<rparr>"

definition inc_roles_created :: "ctl \<Rightarrow> ctl" where
  "inc_roles_created c = c\<lparr>stats := (stats c)\<lparr>roles_created := roles_created (stats c) + 1\<rparr>\<rparr>"

definition inc_users_deleted :: "ctl \<Rightarrow> ctl" where
  "inc_users_deleted c = c\<lparr>stats := (stats c)\<lparr>users_deleted := users_deleted (stats c) + 1\<rparr>\<rparr>"

definition inc_users_created :: "ctl \<Rightarrow> ctl" where
  "inc_users_created c = c\<lparr>stats := (stats c)\<lparr>users_created := users_created (stats c) + 1\<rparr>\<rparr>"

definition inc_users_updated :: "ctl \<Rightarrow> ctl" where
  "inc_users_updated c = c\<lparr>stats := (stats c)\<lparr>users_updated := users_updated (stats c) + 1\<rparr>\<rparr>"

text \<open>A gateway call made inside \<^verbatim>\<open>try: ... except Exception: stats.errors += 1\<close>.\<close>

definition counted :: "(ctl \<Rightarrow> ctl) \<Rightarrow> ctl \<Rightarrow> event list \<times> bool \<Rightarrow> ctl" where
  "counted inc c r =
     (case r of
        (h, True) \<Rightarrow> inc (c\<lparr>history := h\<rparr>)
      | (h, False) \<Rightarrow> inc_errors (c\<lparr>history := h\<rparr>))"

fun parse_items :: "world \<Rightarrow> user_data list \<Rightarrow> UserSpec dict \<Rightarrow> UserSpec dict option" where
  "parse_items w [] users = Some users"
| "parse_items w (user_data # rest) users =
     (case ud_username user_data of
        None \<Rightarrow> None
      | Some u \<Rightarrow>
          parse_items w rest
            (dict_set users u
               \<lparr>username = u,
                database = (case ud_database user_data of None \<Rightarrow> DB_NAME w | Some d \<Rightarrow> d),
                roles = (case ud_roles user_data of None \<Rightarrow> [] | Some r \<Rightarrow> r),
                privileges = ud_privileges user_data\<rparr>))"

text \<open>
  \<^verbatim>\<open>parse_desired_users\<close> catches \<^verbatim>\<open>yaml.YAMLError\<close> and \<^verbatim>\<open>KeyError\<close> (an entry
  without \<^verbatim>\<open>username\<close>, \<open>None\<close> of \<open>parse_items\<close>) and returns the empty dict for both;
  \<^verbatim>\<open>parsed.get\<close> on something that is not a mapping raises \<^verbatim>\<open>AttributeError\<close>.
\<close>

definition parse_desired_users :: "world \<Rightarrow> string \<Rightarrow> error + UserSpec dict" where
  "parse_desired_users w yaml_content =
     (if yaml_content = [] then Inr []
      else (case safe_load w yaml_content of
              YamlError \<Rightarrow> Inr []
            | NotMapping \<Rightarrow> Inl AttributeError
            | Mapping us \<Rightarrow>
                (case parse_items w (case us of None \<Rightarrow> [] | Some l \<Rightarrow> l) [] of
                   None \<Rightarrow> Inr []
                 | Some users \<Rightarrow> Inr users)))"

definition users_to_create :: "UserSpec dict \<Rightarrow> string list \<Rightarrow> string list" where
  "users_to_create desired actual_users = set_minus (remdups (keys desired)) actual_users"

definition users_to_delete :: "UserSpec dict \<Rightarrow> string list \<Rightarrow> string list" where
  "users_to_delete desired actual_users = set_minus actual_users (remdups (keys desired))"

definition users_to_update :: "UserSpec dict \<Rightarrow> string list \<Rightarrow> string list" where
  "users_to_update desired actual_users = set_inter (remdups (keys desired)) actual_users"

definition detect_drift ::
  "UserSpec dict \<Rightarrow> string list \<Rightarrow> string list \<times> string list \<times> string list" where
  "detect_drift desired actual_users =
     (users_to_create desired actual_users, users_to_delete desired actual_users,
      users_to_update desired actual_users)"

fun create_roles_loop :: "world \<Rightarrow> bool \<Rightarrow> string list \<Rightarrow> ctl \<Rightarrow> ctl" where
  "create_roles_loop w dry_run [] c = c"
| "create_roles_loop w dry_run (role # rest) c =
     create_roles_loop w dry_run rest
       (counted inc_roles_created c (create_role w (history c) role dry_run))"

definition all_desired_roles :: "UserSpec dict \<Rightarrow> string list" where
  "all_desired_roles desired_users = remdups (concat (map (\<lambda>(u, spec). roles spec) desired_users))"

text \<open>
  \<^verbatim>\<open>reconcile_roles\<close>: the query for the existing roles is outside any \<^verbatim>\<open>try\<close>, so
  its exception leaves the method (\<open>False\<close>).
\<close>

definition reconcile_roles :: "world \<Rightarrow> UserSpec dict \<Rightarrow> bool \<Rightarrow> ctl \<Rightarrow> ctl \<times> bool" where
  "reconcile_roles w desired_users dry_run c =
     (case fetch_existing_roles w (history c) of
        (h, None) \<Rightarrow> (c\<lparr>history := h\<rparr>, False)
      | (h, Some existing_roles) \<Rightarrow>
          (create_roles_loop w dry_run (set_minus (all_desired_roles desired_users) existing_roles)
             (c\<lparr>history := h\<rparr>), True))"

fun delete_loop :: "world \<Rightarrow> bool \<Rightarrow> UserSpec dict \<Rightarrow> string list \<Rightarrow> ctl \<Rightarrow> ctl" where
  "delete_loop w dry_run previous_state [] c = c"
| "delete_loop w dry_run previous_state (u # rest) c =
     delete_loop w dry_run previous_state rest
       (if u \<in> set (keys previous_state)
        then counted inc_users_deleted c (drop_user w (history c) u dry_run)
        else c)"

text \<open>
  In the two loops below \<^verbatim>\<open>desired_users[username]\<close> cannot raise: the names come from
  the keys of \<open>desired_users\<close>. The model leaves the state as it is in that branch.
\<close>

definition create_step :: "world \<Rightarrow> bool \<Rightarrow> UserSpec dict \<Rightarrow> string \<Rightarrow> ctl \<Rightarrow> ctl" where
  "create_step w dry_run desired_users u c =
     (case dict_get desired_users u of
        None \<Rightarrow> c
      | Some user_spec \<Rightarrow>
          (case get_user_password w u of
             ApiRaises \<Rightarrow> inc_errors c
           | NotFound \<Rightarrow> inc_errors c
           | Found password \<Rightarrow>
               if password = [] then inc_errors c
               else counted inc_users_created c
                      (create_user w (history c) user_spec password dry_run)))"

fun create_loop :: "world \<Rightarrow> bool \<Rightarrow> UserSpec dict \<Rightarrow> string list \<Rightarrow> ctl \<Rightarrow> ctl" where
  "create_loop w dry_run desired_users [] c = c"
| "create_loop w dry_run desired_users (u # rest) c =
     create_loop w dry_run desired_users rest (create_step w dry_run desired_users u c)"

definition update_step ::
  "world \<Rightarrow> bool \<Rightarrow> UserSpec dict \<Rightarrow> UserSpec dict \<Rightarrow> string \<Rightarrow> ctl \<Rightarrow> ctl" where
  "update_step w dry_run desired_users previous_state u c =
     (case dict_get desired_users u of
        None \<Rightarrow> c
      | Some user_spec \<Rightarrow>
          (case dict_get previous_state u of
             None \<Rightarrow> c
           | Some prev_spec \<Rightarrow>
               if set (roles prev_spec) \<noteq> set (roles user_spec) then
                 (case fetch_user_roles w (history c) u of
                    (h, None) \<Rightarrow> inc_errors (c\<lparr>history := h\<rparr>)
                  | (h, Some actual_roles) \<Rightarrow>
                      let desired_roles = remdups (roles user_spec) in
                      if set actual_roles \<noteq> set desired_roles
                      then counted inc_users_updated c
                             (update_user_roles w h u actual_roles desired_roles dry_run)
                      else c\<lparr>history := h\<rparr>)
               else c))"

fun update_loop ::
  "world \<Rightarrow> bool \<Rightarrow> UserSpec dict \<Rightarrow> UserSpec dict \<Rightarrow> string list \<Rightarrow> ctl \<Rightarrow> ctl" where
  "update_loop w dry_run desired_users previous_state [] c = c"
| "update_loop w dry_run desired_users previous_state (u # rest) c =
     update_loop w dry_run desired_users previous_state rest
       (update_step w dry_run desired_users previous_state u c)"

definition note_drift :: "string list \<Rightarrow> string list \<Rightarrow> ctl \<Rightarrow> ctl" where
  \<comment> \<open>\<^verbatim>\<open>drift_count = len(users_to_create) + len(users_to_delete)\<close> and what follows it\<close>
  "note_drift to_create to_delete c =
     (let drift_count = length to_create + length to_delete
      in if drift_count > 0 then c\<lparr>stats := (stats c)\<lparr>drift_detected := drift_count\<rparr>\<rparr> else c)"

definition persist :: "world \<Rightarrow> bool \<Rightarrow> UserSpec dict \<Rightarrow> ctl \<Rightarrow> ctl" where
  "persist w dry_run desired_users c =
     (if \<not> dry_run
      then c\<lparr>history := history c @ [SaveState desired_users],
             state_file := save_state w (state_file c) desired_users\<rparr>
      else c)"

definition update_metrics :: "world \<Rightarrow> UserSpec dict \<Rightarrow> ctl \<Rightarrow> ctl \<times> bool" where
  "update_metrics w desired_users c =
     (case fetch_existing_roles w (history c) of
        (h, None) \<Rightarrow> (c\<lparr>history := h, users_managed := length desired_users\<rparr>, False)
      | (h, Some rs) \<Rightarrow>
          (c\<lparr>history := h, users_managed := length desired_users, roles_managed := length rs\<rparr>,
           True))"

text \<open>
  \<^verbatim>\<open>reconcile_users\<close> from "Reconcile roles first" to its end, given the desired
  users, the previous state and the users found in the database.
\<close>

definition reconcile_with ::
  "world \<Rightarrow> bool \<Rightarrow> UserSpec dict \<Rightarrow> UserSpec dict \<Rightarrow> string list \<Rightarrow> ctl \<Rightarrow> ctl \<times> bool" where
  "reconcile_with w dry_run desired_users previous_state actual_users c =
     (case reconcile_roles w desired_users dry_run c of
        (c1, False) \<Rightarrow> (c1, False)
      | (c1, True) \<Rightarrow>
          (case detect_drift desired_users actual_users of
             (to_create, to_delete, to_update) \<Rightarrow>
               update_metrics w desired_users
                 (persist w dry_run desired_users
                    (update_loop w dry_run desired_users previous_state to_update
                       (create_loop w dry_run desired_users to_create
                          (delete_loop w dry_run previous_state to_delete
                             (note_drift to_create to_delete c1)))))))"

text \<open>
  The result of \<open>reconcile_users\<close> is the state it leaves and whether it returned
  (\<open>True\<close>) or an exception left it (\<open>False\<close>).
\<close>

definition reconcile_users :: "world \<Rightarrow> bool \<Rightarrow> ctl \<Rightarrow> ctl \<times> bool" where
  "reconcile_users w dry_run c =
     (case configmap w of
        ApiRaises \<Rightarrow> (c, False)
      | NotFound \<Rightarrow> (inc_errors c, True)
      | Found yaml_content \<Rightarrow>
          (case parse_desired_users w yaml_content of
             Inl e \<Rightarrow> (c, False)
           | Inr desired_users \<Rightarrow>
               (case load_state w (state_file c) of
                  Inl e \<Rightarrow> (c, False)
                | Inr previous_state \<Rightarrow>
                    (case fetch_existing_users w (history c) of
                       (h, None) \<Rightarrow> (inc_errors (c\<lparr>history := h\<rparr>), True)
                     | (h, Some actual_users) \<Rightarrow>
                         reconcile_with w dry_run desired_users previous_state actual_users
                           (c\<lparr>history := h\<rparr>)))))"

text \<open>
  One turn of \<^verbatim>\<open>run_reconciliation_loop\<close> starts from fresh statistics; \<open>cycle\<close> is
  that turn, from an empty history, with the state file \<open>file\<close> on disk.
\<close>

definition cycle :: "world \<Rightarrow> bool \<Rightarrow> file_content option \<Rightarrow> ctl \<times> bool" where
  "cycle w dry_run file =
     reconcile_users w dry_run
       \<lparr>history = [], stats = new_stats, state_file = file, users_managed = 0, roles_managed = 0\<rparr>"

subsection \<open>The restricted deletion set and the drift of the specification\<close>

text \<open>
  The deletion set after restriction to the keys of the last-applied state, and the
  drift as the specification words it: creations plus restricted deletions.
\<close>

definition restricted_to_delete :: "UserSpec dict \<Rightarrow> string list \<Rightarrow> UserSpec dict \<Rightarrow> string list" where
  "restricted_to_delete desired actual_users previous_state =
     set_inter (users_to_delete desired actual_users) (keys previous_state)"

definition spec_drift :: "UserSpec dict \<Rightarrow> string list \<Rightarrow> UserSpec dict \<Rightarrow> nat" where
  "spec_drift desired actual_users previous_state =
     length (users_to_create desired actual_users)
     + length (restricted_to_delete desired actual_users previous_state)"

subsection \<open>Events a cycle may add\<close>

text \<open>
  \<open>allowed dry prev e\<close>: the event \<open>e\<close> may occur in a cycle run with \<^verbatim>\<open>dry_run = dry\<close>
  whose loaded previous state is \<open>prev\<close>.
\<close>

fun allowed :: "bool \<Rightarrow> UserSpec dict \<Rightarrow> event \<Rightarrow> bool" where
  "allowed dry prev (Call (DropUser u) d) = (d = dry \<and> u \<in> set (keys prev))"
| "allowed dry prev (Call (UpdateUserRoles u old new) d) = (d = dry \<and> u \<in> set (keys prev))"
| "allowed dry prev (Call c d) = (d = dry)"
| "allowed dry prev (Select (UserRoles u)) = (u \<in> set (keys prev))"
| "allowed dry prev (Select q) = True"
| "allowed dry prev (Execute s) = (\<not> dry)"
| "allowed dry prev Commit = (\<not> dry)"
| "allowed dry prev Rollback = (\<not> dry)"
| "allowed dry prev (SaveState d) = (\<not> dry)"

definition tx_ok :: "(event \<Rightarrow> bool) \<Rightarrow> bool \<Rightarrow> bool" where
  "tx_ok P dry = (dry \<or> ((\<forall>s. P (Execute s)) \<and> P Commit \<and> P Rollback))"

text \<open>
  The two tests of the update loop: the roles of the previous spec differ from the desired
  ones, and the memberships found in the database differ from the desired roles.
\<close>

definition roles_changed :: "UserSpec dict \<Rightarrow> UserSpec dict \<Rightarrow> string \<Rightarrow> bool" where
  "roles_changed desired_users previous_state u =
     (case (dict_get desired_users u, dict_get previous_state u) of
        (Some user_spec, Some prev_spec) \<Rightarrow> set (roles prev_spec) \<noteq> set (roles user_spec)
      | _ \<Rightarrow> False)"

definition update_needed ::
  "UserSpec dict \<Rightarrow> UserSpec dict \<Rightarrow> (string \<times> string) list \<Rightarrow> string \<Rightarrow> bool" where
  "update_needed desired_users previous_state members u =
     (roles_changed desired_users previous_state u
      \<and> (case dict_get desired_users u of
            Some user_spec \<Rightarrow> set (user_roles_query members u) \<noteq> set (roles user_spec)
          | None \<Rightarrow> False))"

text \<open>\<^verbatim>\<open>get_user_password\<close> gives a password that passes \<^verbatim>\<open>if not password\<close>.\<close>

definition password_found :: "world \<Rightarrow> string \<Rightarrow> bool" where
  "password_found w u = (case get_user_password w u of Found pw \<Rightarrow> pw \<noteq> [] | _ \<Rightarrow> False)"

subsection \<open>Example worlds\<close>

definition alice_spec :: UserSpec where
  "alice_spec = \<lparr>username = ''alice'', database = ''app'', roles = [''ro''],
     privileges = Some [(''public'', [''USAGE''])]\<rparr>"

definition bob_spec :: UserSpec where
  "bob_spec = \<lparr>username = ''bob'', database = ''app'', roles = [''rw''], privileges = None\<rparr>"

definition mallory_spec :: UserSpec where
  "mallory_spec = \<lparr>username = ''mallory'', database = ''app'', roles = [],
     privileges = Some [(''public'', [''ALL ON SCHEMA public TO PUBLIC; DROP TABLE t; --''])]\<rparr>"

text \<open>Nothing raises, the database has no roles, the ConfigMap has no \<^verbatim>\<open>users.yaml\<close>.\<close>

definition quiet :: world where
  "quiet = \<lparr>DB_NAME = ''postgres'', DB_USER = ''postgres'',
     STATE_FILE = ''/tmp/users_state.json'', configmap = Found [],
     safe_load = (\<lambda>y. YamlError), secret = (\<lambda>n. NotFound),
     pg_roles = (\<lambda>h. []), pg_auth_members = (\<lambda>h. []),
     query_raises = (\<lambda>h q. False), connect_raises = (\<lambda>h. False),
     execute_raises = (\<lambda>h s. False), commit_raises = (\<lambda>h. False),
     load_fault = False, save_fault = NoFault\<rparr>"

text \<open>A catalogue with a group role, a login role and a system role.\<close>

definition catalogue_world :: world where
  "catalogue_world =
     quiet\<lparr>pg_roles := (\<lambda>h. [(''read_only'', False), (''alice'', True), (''postgres'', True)])\<rparr>"

text \<open>The desired spec names the system role \<^verbatim>\<open>postgres\<close> as a user in the group \<^verbatim>\<open>pg_monitor\<close>.\<close>

definition system_world :: world where
  "system_world =
     quiet\<lparr>configmap := Found ''users: [{username: postgres, roles: [pg_monitor]}]'',
       safe_load := (\<lambda>y. Mapping (Some [\<lparr>ud_username = Some ''postgres'', ud_database = None,
                      ud_roles = Some [''pg_monitor''], ud_privileges = None\<rparr>])),
       secret := (\<lambda>n. if n = ''user-postgres-secret'' then Found ''pw'' else NotFound),
       pg_roles := (\<lambda>h. [(''postgres'', True), (''pg_monitor'', False)])\<rparr>"

text \<open>
  The ConfigMap holds YAML that does not parse; the database has the users \<^verbatim>\<open>bob\<close> and
  \<^verbatim>\<open>charlie\<close>; \<open>bob_file\<close> is a state file that knows \<^verbatim>\<open>bob\<close> only.
\<close>

definition orphan_world :: world where
  "orphan_world =
     quiet\<lparr>configmap := Found ''users: ['',
       pg_roles := (\<lambda>h. [(''bob'', True), (''charlie'', True)])\<rparr>"

definition bob_file :: "file_content option" where
  "bob_file = Some (Json (JObject [(''bob'', asdict bob_spec)]))"

text \<open>
  A world with every kind of work: \<^verbatim>\<open>alice\<close> is new, \<^verbatim>\<open>bob\<close> is owned and no longer
  desired, \<^verbatim>\<open>charlie\<close> is not owned, \<^verbatim>\<open>dave\<close> is owned and changes from \<^verbatim>\<open>ro\<close> to
  \<^verbatim>\<open>rw\<close>, \<^verbatim>\<open>erin\<close> is desired and live but not owned, with the live role \<^verbatim>\<open>ro\<close> where
  \<^verbatim>\<open>rw\<close> is desired.
\<close>

definition busy_yaml :: string where
  "busy_yaml =
     ''users: [{username: alice, database: app, roles: [ro], privileges: {public: [USAGE]}}, ''
     @ ''{username: dave, database: app, roles: [rw]}, {username: erin, roles: [rw]}]''"

definition busy_desired :: "UserSpec dict" where
  "busy_desired =
     [(''alice'', alice_spec),
      (''dave'', \<lparr>username = ''dave'', database = ''app'', roles = [''rw''], privileges = None\<rparr>),
      (''erin'', \<lparr>username = ''erin'', database = ''postgres'', roles = [''rw''],
                  privileges = None\<rparr>)]"

definition busy_world :: world where
  "busy_world =
     quiet\<lparr>configmap := Found busy_yaml,
       safe_load := (\<lambda>y. Mapping (Some
         [\<lparr>ud_username = Some ''alice'', ud_database = Some ''app'', ud_roles = Some [''ro''],
           ud_privileges = Some [(''public'', [''USAGE''])]\<rparr>,
          \<lparr>ud_username = Some ''dave'', ud_database = Some ''app'', ud_roles = Some [''rw''],
           ud_privileges = None\<rparr>,
          \<lparr>ud_username = Some ''erin'', ud_database = None, ud_roles = Some [''rw''],
           ud_privileges = None\<rparr>])),
       secret := (\<lambda>n. if n = ''user-alice-secret'' then Found ''p1'' else NotFound),
       pg_roles := (\<lambda>h. [(''bob'', True), (''charlie'', True), (''dave'', True), (''erin'', True),
                          (''ro'', False)]),
       pg_auth_members := (\<lambda>h. [(''ro'', ''dave''), (''ro'', ''erin'')])\<rparr>"

definition dave_old_spec :: UserSpec where
  "dave_old_spec = \<lparr>username = ''dave'', database = ''app'', roles = [''ro''], privileges = None\<rparr>"

definition busy_previous :: "UserSpec dict" where
  "busy_previous = [(''bob'', bob_spec), (''dave'', dave_old_spec)]"

definition busy_file :: "file_content option" where
  "busy_file = Some (Json (JObject (map (\<lambda>(u, spec). (u, asdict spec)) busy_previous)))"

text \<open>The disk fails while the state file is being written, or when it is opened.\<close>

definition write_fails :: world where
  "write_fails = quiet\<lparr>save_fault := WriteFails\<rparr>"

definition open_fails :: world where
  "open_fails = quiet\<lparr>save_fault := OpenFails\<rparr>"

text \<open>The same world with YAML that parses but has an entry without \<^verbatim>\<open>username\<close>.\<close>

definition nameless_world :: world where
  "nameless_world =
     orphan_world\<lparr>configmap := Found ''users: [{database: app}]'',
       safe_load := (\<lambda>y. Mapping (Some [\<lparr>ud_username = None, ud_database = Some ''app'',
                      ud_roles = None, ud_privileges = None\<rparr>]))\<rparr>"

text \<open>A disk whose state file knows \<^verbatim>\<open>bob\<close> and that holds nothing else.\<close>

definition bob_disk :: disk where
  "bob_disk = (\<lambda>path. if path = ''/tmp/users_state.json'' then bob_file else None)"

section \<open>Auxiliary facts\<close>

lemma history_inc [simp]:
  "history (inc_errors c) = history c"
  "history (inc_roles_created c) = history c"
  "history (inc_users_deleted c) = history c"
  "history (inc_users_created c) = history c"
  "history (inc_users_updated c) = history c"
  by (simp_all add: inc_errors_def inc_roles_created_def inc_users_deleted_def
      inc_users_created_def inc_users_updated_def)

lemma state_file_inc [simp]:
  "state_file (inc_errors c) = state_file c"
  "state_file (inc_roles_created c) = state_file c"
  "state_file (inc_users_deleted c) = state_file c"
  "state_file (inc_users_created c) = state_file c"
  "state_file (inc_users_updated c) = state_file c"
  by (simp_all add: inc_errors_def inc_roles_created_def inc_users_deleted_def
      inc_users_created_def inc_users_updated_def)

lemma history_counted [simp]:
  "history (counted inc_roles_created c r) = fst r"
  "history (counted inc_users_deleted c r) = fst r"
  "history (counted inc_users_created c r) = fst r"
  "history (counted inc_users_updated c r) = fst r"
  by (cases r; simp add: counted_def split: bool.splits)+

lemma state_file_counted [simp]:
  "state_file (counted inc_roles_created c r) = state_file c"
  "state_file (counted inc_users_deleted c r) = state_file c"
  "state_file (counted inc_users_created c r) = state_file c"
  "state_file (counted inc_users_updated c r) = state_file c"
  by (cases r; simp add: counted_def split: bool.splits)+

subsection \<open>What the gateway appends\<close>

lemma run_stmts_all:
  "list_all P h \<Longrightarrow> (\<And>s. P (Execute s)) \<Longrightarrow> list_all P (fst (run_stmts w h ss))"
  by (induction ss arbitrary: h) simp_all

lemma in_transaction_all:
  assumes "list_all P h" and "\<And>s. P (Execute s)" and "P Commit" and "P Rollback"
  shows "list_all P (fst (in_transaction w h ss))"
proof -
  obtain h' ok where r: "run_stmts w h ss = (h', ok)"
    by (cases "run_stmts w h ss")
  have "list_all P (fst (run_stmts w h ss))"
    using assms(1,2) by (rule run_stmts_all)
  then have "list_all P h'"
    by (simp add: r)
  then show ?thesis
    using assms(1,3,4) by (simp add: in_transaction_def r split: bool.splits)
qed

lemma run_stmts_prefix: "prefix h (fst (run_stmts w h ss))"
proof (induction ss arbitrary: h)
  case Nil
  show ?case by simp
next
  case (Cons s ss)
  have "prefix (h @ [Execute s]) (fst (run_stmts w (h @ [Execute s]) ss))"
    by (rule Cons.IH)
  then have "prefix h (fst (run_stmts w (h @ [Execute s]) ss))"
    by (rule append_prefixD)
  then show ?case by simp
qed

lemma in_transaction_prefix: "prefix h (fst (in_transaction w h ss))"
  using run_stmts_prefix [of h w ss]
  by (auto simp: in_transaction_def split: prod.splits bool.splits intro: prefix_order.trans)


lemma tx_ok_allowed [simp]: "tx_ok (allowed dry prev) dry"
  by (simp add: tx_ok_def)

lemma tx_okD: "tx_ok P False \<Longrightarrow> P (Execute s) \<and> P Commit \<and> P Rollback"
  by (cases s) (simp add: tx_ok_def)

lemma create_role_all:
  assumes "list_all P h" and "P (Call (CreateRole r) dry)" and "tx_ok P dry"
  shows "list_all P (fst (create_role w h r dry))"
proof (cases dry)
  case True
  with assms(1,2) show ?thesis
    by (simp add: create_role_def)
next
  case False
  have "list_all P (fst (run_stmts w (h @ [Call (CreateRole r) dry]) [create_role_sql r]))"
    using assms False by (intro run_stmts_all) (simp_all add: tx_okD)
  with assms(1,2) False show ?thesis
    by (simp add: create_role_def Let_def del: run_stmts.simps)
qed

lemma in_transaction_call_all:
  assumes "list_all P h" and "P (Call c dry)" and "tx_ok P dry"
  shows "list_all P (fst (if dry then (h @ [Call c dry], True)
                          else in_transaction w (h @ [Call c dry]) ss))"
proof (cases dry)
  case True
  with assms(1,2) show ?thesis by simp
next
  case False
  have "list_all P (fst (in_transaction w (h @ [Call c dry]) ss))"
    using assms False by (intro in_transaction_all) (simp_all add: tx_okD)
  with False show ?thesis by simp
qed

lemma create_user_all:
  "list_all P h \<Longrightarrow> P (Call (CreateUser s) dry) \<Longrightarrow> tx_ok P dry \<Longrightarrow>
   list_all P (fst (create_user w h s pw dry))"
  unfolding create_user_def Let_def by (rule in_transaction_call_all)

lemma drop_user_all:
  "list_all P h \<Longrightarrow> P (Call (DropUser u) dry) \<Longrightarrow> tx_ok P dry \<Longrightarrow>
   list_all P (fst (drop_user w h u dry))"
  unfolding drop_user_def Let_def by (rule in_transaction_call_all)

lemma update_user_roles_all:
  assumes "list_all P h" and "P (Call (UpdateUserRoles u old new) dry)" and "tx_ok P dry"
  shows "list_all P (fst (update_user_roles w h u old new dry))"
proof (cases "set_minus old new = [] \<and> set_minus new old = []")
  case True
  with assms(1,2) show ?thesis
    by (simp add: update_user_roles_def)
next
  case False
  have "list_all P (fst (if dry then (h @ [Call (UpdateUserRoles u old new) dry], True)
                         else in_transaction w (h @ [Call (UpdateUserRoles u old new) dry])
                                (map (\<lambda>role. revoke_role_sql role u) (set_minus old new)
                                 @ map (\<lambda>role. grant_role_sql role u) (set_minus new old))))"
    using assms by (rule in_transaction_call_all)
  with False show ?thesis
    by (auto simp: update_user_roles_def Let_def)
qed

lemma create_role_prefix: "prefix h (fst (create_role w h r dry))"
  using run_stmts_prefix [of "h @ [Call (CreateRole r) dry]" w "[create_role_sql r]"]
  by (auto simp: create_role_def Let_def dest: append_prefixD)

lemma create_user_prefix: "prefix h (fst (create_user w h s pw dry))"
  using in_transaction_prefix [of "h @ [Call (CreateUser s) dry]" w "create_user_sql s pw"]
  by (auto simp: create_user_def Let_def dest: append_prefixD)

lemma drop_user_prefix: "prefix (h @ [Call (DropUser u) dry]) (fst (drop_user w h u dry))"
  using in_transaction_prefix [of "h @ [Call (DropUser u) dry]" w "drop_user_sql w u"]
  by (auto simp: drop_user_def Let_def)

lemma update_user_roles_prefix: "prefix h (fst (update_user_roles w h u old new dry))"
  using in_transaction_prefix [of "h @ [Call (UpdateUserRoles u old new) dry]" w
      "map (\<lambda>role. revoke_role_sql role u) (set_minus old new)
       @ map (\<lambda>role. grant_role_sql role u) (set_minus new old)"]
  by (auto simp: update_user_roles_def Let_def dest: append_prefixD)

subsection \<open>The loops\<close>

lemma create_roles_loop_all:
  "list_all P (history c) \<Longrightarrow> (\<And>r. P (Call (CreateRole r) dry)) \<Longrightarrow> tx_ok P dry \<Longrightarrow>
   list_all P (history (create_roles_loop w dry rs c))"
  by (induction rs arbitrary: c) (simp_all add: create_role_all)

lemma delete_loop_all:
  "list_all P (history c) \<Longrightarrow>
   (\<And>u. u \<in> set us \<Longrightarrow> u \<in> set (keys prev) \<Longrightarrow> P (Call (DropUser u) dry)) \<Longrightarrow>
   tx_ok P dry \<Longrightarrow> list_all P (history (delete_loop w dry prev us c))"
  by (induction us arbitrary: c) (simp_all add: drop_user_all)

lemma create_step_all:
  "list_all P (history c) \<Longrightarrow> (\<And>s. P (Call (CreateUser s) dry)) \<Longrightarrow> tx_ok P dry \<Longrightarrow>
   list_all P (history (create_step w dry desired u c))"
  by (simp add: create_step_def create_user_all split: option.splits api.splits)

lemma create_loop_all:
  "list_all P (history c) \<Longrightarrow> (\<And>s. P (Call (CreateUser s) dry)) \<Longrightarrow> tx_ok P dry \<Longrightarrow>
   list_all P (history (create_loop w dry desired us c))"
  by (induction us arbitrary: c) (simp_all add: create_step_all)

lemma update_step_all:
  assumes "list_all P (history c)"
    and "u \<in> set (keys prev) \<Longrightarrow> P (Select (UserRoles u))"
    and "\<And>old new. u \<in> set (keys prev) \<Longrightarrow> P (Call (UpdateUserRoles u old new) dry)"
    and "tx_ok P dry"
  shows "list_all P (history (update_step w dry desired prev u c))"
proof (cases "dict_get prev u")
  case None
  with assms(1) show ?thesis
    by (simp add: update_step_def split: option.splits)
next
  case (Some p)
  then have k: "u \<in> set (keys prev)"
    by (auto simp: dict_get_def keys_def dest: map_of_SomeD intro: rev_image_eqI)
  have "list_all P (fst (update_user_roles w (history c @ [Select (UserRoles u)]) u old new dry))"
    for old new
    using assms k by (intro update_user_roles_all) simp_all
  with assms k Some show ?thesis
    by (simp add: update_step_def fetch_user_roles_def Let_def split: option.splits)
qed

lemma update_loop_all:
  assumes "list_all P (history c)"
    and "\<And>u. u \<in> set (keys prev) \<Longrightarrow> P (Select (UserRoles u))"
    and "\<And>u old new. u \<in> set (keys prev) \<Longrightarrow> P (Call (UpdateUserRoles u old new) dry)"
    and "tx_ok P dry"
  shows "list_all P (history (update_loop w dry desired prev us c))"
  using assms(1)
proof (induction us arbitrary: c)
  case Nil
  then show ?case by simp
next
  case (Cons u us)
  have "list_all P (history (update_step w dry desired prev u c))"
    using Cons.prems assms(2-4) by (intro update_step_all) simp_all
  then show ?case by (simp add: Cons.IH)
qed


subsection \<open>The whole cycle keeps to the allowed events\<close>

lemma reconcile_roles_all:
  assumes "list_all P (history c)" and "P (Select ListRoles)"
    and "\<And>r. P (Call (CreateRole r) dry)" and "tx_ok P dry"
  shows "list_all P (history (fst (reconcile_roles w desired dry c)))"
  using assms
  by (simp add: reconcile_roles_def fetch_existing_roles_def create_roles_loop_all)

lemma history_note_drift [simp]: "history (note_drift a b c) = history c"
  by (simp add: note_drift_def Let_def)

lemma state_file_note_drift [simp]: "state_file (note_drift a b c) = state_file c"
  by (simp add: note_drift_def Let_def)

lemma persist_all:
  "list_all P (history c) \<Longrightarrow> (\<not> dry \<Longrightarrow> P (SaveState desired)) \<Longrightarrow>
   list_all P (history (persist w dry desired c))"
  by (simp add: persist_def)

lemma update_metrics_all:
  "list_all P (history c) \<Longrightarrow> P (Select ListRoles) \<Longrightarrow>
   list_all P (history (fst (update_metrics w desired c)))"
  by (simp add: update_metrics_def fetch_existing_roles_def)

lemma reconcile_with_allowed:
  assumes "list_all (allowed dry prev) (history c)"
  shows "list_all (allowed dry prev) (history (fst (reconcile_with w dry desired prev actual c)))"
proof -
  let ?P = "allowed dry prev"
  obtain c1 ok where r: "reconcile_roles w desired dry c = (c1, ok)"
    by (cases "reconcile_roles w desired dry c")
  have "list_all ?P (history (fst (reconcile_roles w desired dry c)))"
    using assms by (intro reconcile_roles_all) simp_all
  then have 1: "list_all ?P (history c1)"
    by (simp add: r)
  then have 2: "list_all ?P (history (delete_loop w dry prev (users_to_delete desired actual)
                  (note_drift (users_to_create desired actual)
                     (users_to_delete desired actual) c1)))"
    (is "list_all ?P (history ?c2)")
    by (intro delete_loop_all) simp_all
  then have 3: "list_all ?P (history (create_loop w dry desired (users_to_create desired actual) ?c2))"
    (is "list_all ?P (history ?c3)")
    by (intro create_loop_all) simp_all
  then have 4: "list_all ?P (history (update_loop w dry desired prev
                  (users_to_update desired actual) ?c3))" (is "list_all ?P (history ?c4)")
    by (intro update_loop_all) simp_all
  then have 5: "list_all ?P (history (persist w dry desired ?c4))"
    by (intro persist_all) simp_all
  then have 6: "list_all ?P (history (fst (update_metrics w desired (persist w dry desired ?c4))))"
    by (intro update_metrics_all) simp_all
  show ?thesis
  proof (cases ok)
    case True
    with 6 r show ?thesis by (simp add: reconcile_with_def detect_drift_def)
  next
    case False
    with 1 r show ?thesis by (simp add: reconcile_with_def detect_drift_def)
  qed
qed

lemma reconcile_users_allowed:
  assumes "load_state w (state_file c) = Inr prev" and "list_all (allowed dry prev) (history c)"
  shows "list_all (allowed dry prev) (history (fst (reconcile_users w dry c)))"
proof -
  have "list_all (allowed dry prev)
          (history (fst (reconcile_with w dry desired prev actual
             (c\<lparr>history := history c @ [Select ListUsers]\<rparr>))))" for desired actual
    using assms(2) by (intro reconcile_with_allowed) simp
  with assms show ?thesis
    by (simp add: reconcile_users_def fetch_existing_users_def split: api.splits sum.splits)
qed

lemma cycle_allowed:
  "load_state w file = Inr prev \<Longrightarrow> list_all (allowed dry prev) (history (fst (cycle w dry file)))"
  unfolding cycle_def by (rule reconcile_users_allowed) simp_all

lemma cycle_load_raises:
  "load_state w file = Inl e \<Longrightarrow> history (fst (cycle w dry file)) = []"
  by (simp add: cycle_def reconcile_users_def split: api.splits sum.splits)


subsection \<open>The state file\<close>

lemma state_file_create_roles_loop [simp]:
  "state_file (create_roles_loop w dry rs c) = state_file c"
  by (induction rs arbitrary: c) simp_all

lemma state_file_delete_loop [simp]:
  "state_file (delete_loop w dry prev us c) = state_file c"
  by (induction us arbitrary: c) simp_all

lemma state_file_create_step [simp]:
  "state_file (create_step w dry desired u c) = state_file c"
  by (simp add: create_step_def split: option.splits api.splits)

lemma state_file_create_loop [simp]:
  "state_file (create_loop w dry desired us c) = state_file c"
  by (induction us arbitrary: c) simp_all

lemma state_file_update_step [simp]:
  "state_file (update_step w dry desired prev u c) = state_file c"
  by (simp add: update_step_def Let_def split: option.splits prod.splits)

lemma state_file_update_loop [simp]:
  "state_file (update_loop w dry desired prev us c) = state_file c"
  by (induction us arbitrary: c) simp_all

lemma state_file_reconcile_roles [simp]:
  "state_file (fst (reconcile_roles w desired dry c)) = state_file c"
  by (simp add: reconcile_roles_def split: prod.splits option.splits)

lemma state_file_update_metrics [simp]:
  "state_file (fst (update_metrics w desired c)) = state_file c"
  by (simp add: update_metrics_def split: prod.splits option.splits)

lemma state_file_reconcile_with:
  "snd (reconcile_roles w desired dry c) \<Longrightarrow>
   state_file (fst (reconcile_with w dry desired prev actual c))
     = (if dry then state_file c else save_state w (state_file c) desired)"
  using state_file_reconcile_roles [of w desired dry c]
  by (cases "reconcile_roles w desired dry c")
     (simp add: reconcile_with_def detect_drift_def persist_def del: state_file_reconcile_roles)

lemma state_file_reconcile_with_dry:
  "state_file (fst (reconcile_with w True desired prev actual c)) = state_file c"
  using state_file_reconcile_roles [of w desired True c]
  by (cases "reconcile_roles w desired True c")
     (simp add: reconcile_with_def detect_drift_def persist_def del: state_file_reconcile_roles
        split: bool.splits)

lemma state_file_cycle_dry: "state_file (fst (cycle w True file)) = file"
  by (simp add: cycle_def reconcile_users_def state_file_reconcile_with_dry
      split: api.splits sum.splits prod.splits option.splits)

subsection \<open>The statistics\<close>

lemma stats_inc [simp]:
  "stats (inc_errors c) = (stats c)\<lparr>errors := errors (stats c) + 1\<rparr>"
  "stats (inc_roles_created c) = (stats c)\<lparr>roles_created := roles_created (stats c) + 1\<rparr>"
  "stats (inc_users_deleted c) = (stats c)\<lparr>users_deleted := users_deleted (stats c) + 1\<rparr>"
  "stats (inc_users_created c) = (stats c)\<lparr>users_created := users_created (stats c) + 1\<rparr>"
  "stats (inc_users_updated c) = (stats c)\<lparr>users_updated := users_updated (stats c) + 1\<rparr>"
  by (simp_all add: inc_errors_def inc_roles_created_def inc_users_deleted_def
      inc_users_created_def inc_users_updated_def)

lemma stats_counted [simp]:
  "stats (counted inc_roles_created c r) =
     (if snd r then (stats c)\<lparr>roles_created := roles_created (stats c) + 1\<rparr>
      else (stats c)\<lparr>errors := errors (stats c) + 1\<rparr>)"
  "stats (counted inc_users_deleted c r) =
     (if snd r then (stats c)\<lparr>users_deleted := users_deleted (stats c) + 1\<rparr>
      else (stats c)\<lparr>errors := errors (stats c) + 1\<rparr>)"
  "stats (counted inc_users_created c r) =
     (if snd r then (stats c)\<lparr>users_created := users_created (stats c) + 1\<rparr>
      else (stats c)\<lparr>errors := errors (stats c) + 1\<rparr>)"
  "stats (counted inc_users_updated c r) =
     (if snd r then (stats c)\<lparr>users_updated := users_updated (stats c) + 1\<rparr>
      else (stats c)\<lparr>errors := errors (stats c) + 1\<rparr>)"
  by (cases r; simp add: counted_def split: bool.splits)+

lemma drift_create_roles_loop [simp]:
  "drift_detected (stats (create_roles_loop w dry rs c)) = drift_detected (stats c)"
  by (induction rs arbitrary: c) simp_all

lemma drift_delete_loop [simp]:
  "drift_detected (stats (delete_loop w dry prev us c)) = drift_detected (stats c)"
  by (induction us arbitrary: c) simp_all

lemma drift_create_step [simp]:
  "drift_detected (stats (create_step w dry desired u c)) = drift_detected (stats c)"
  by (simp add: create_step_def split: option.splits api.splits)

lemma drift_create_loop [simp]:
  "drift_detected (stats (create_loop w dry desired us c)) = drift_detected (stats c)"
  by (induction us arbitrary: c) simp_all

lemma drift_update_step [simp]:
  "drift_detected (stats (update_step w dry desired prev u c)) = drift_detected (stats c)"
  by (simp add: update_step_def Let_def split: option.splits prod.splits)

lemma drift_update_loop [simp]:
  "drift_detected (stats (update_loop w dry desired prev us c)) = drift_detected (stats c)"
  by (induction us arbitrary: c) simp_all

lemma stats_persist [simp]: "stats (persist w dry desired c) = stats c"
  by (simp add: persist_def)

lemma stats_update_metrics [simp]: "stats (fst (update_metrics w desired c)) = stats c"
  by (simp add: update_metrics_def split: prod.splits option.splits)

lemma drift_note_drift:
  "drift_detected (stats c) = 0 \<Longrightarrow>
   drift_detected (stats (note_drift a b c)) = length a + length b"
  by (simp add: note_drift_def Let_def)

lemma reconcile_roles_ok:
  "\<not> query_raises w (history c) ListRoles \<Longrightarrow>
   reconcile_roles w desired dry c =
     (create_roles_loop w dry
        (set_minus (all_desired_roles desired) (roles_query (pg_roles w (history c))))
        (c\<lparr>history := history c @ [Select ListRoles]\<rparr>), True)"
  by (simp add: reconcile_roles_def fetch_existing_roles_def)

lemma drift_reconcile_with:
  assumes "\<not> query_raises w (history c) ListRoles" and "drift_detected (stats c) = 0"
  shows "drift_detected (stats (fst (reconcile_with w dry desired prev actual c)))
     = length (users_to_create desired actual) + length (users_to_delete desired actual)"
  using assms
  by (simp add: reconcile_with_def detect_drift_def reconcile_roles_ok drift_note_drift)

lemma length_set_minus: "distinct a \<Longrightarrow> length (set_minus a b) = card (set a - set b)"
proof -
  assume d: "distinct a"
  then have "distinct (set_minus a b)"
    by (simp add: set_minus_def)
  then have "length (set_minus a b) = card (set (set_minus a b))"
    by (simp add: distinct_card)
  also have "set (set_minus a b) = set a - set b"
    by (auto simp: set_minus_def)
  finally show ?thesis .
qed

lemma distinct_users_query [simp]: "distinct (users_query rows)"
  by (simp add: users_query_def)

subsection \<open>Saving and loading\<close>

lemma save_state_eq:
  "save_state w file users =
     (case save_fault w of
        OpenFails \<Rightarrow> file
      | WriteFails \<Rightarrow> Some NotJson
      | NoFault \<Rightarrow> Some (Json (JObject (map (\<lambda>(u, spec). (u, asdict spec)) users))))"
  by (simp add: save_state_def save_state_disk_def open_for_writing_def json_dump_def Let_def
      split: io_fault.splits)

lemma save_state_disk_content:
  "disk_after (save_state_disk w d users) (STATE_FILE w) = save_state w (d (STATE_FILE w)) users"
  by (simp add: save_state_def save_state_disk_def open_for_writing_def json_dump_def Let_def
      split: io_fault.splits)

lemma strings_of_JString [simp]: "strings_of (map JString xs) = Some xs"
  by (induction xs) simp_all

lemma privilege_items_of_dump [simp]:
  "privilege_items_of (map (\<lambda>(k, ps). (k, JArray (map JString ps))) d) = Some d"
  by (induction d) auto

lemma UserSpec_of_asdict [simp]: "UserSpec_of (asdict spec) = Inr spec"
  by (cases "privileges spec")
     (simp_all add: UserSpec_of_def asdict_def keys_def dict_get_def UserSpec_fields_def)

lemma load_items_dump [simp]:
  "load_items (map (\<lambda>(u, spec). (u, asdict spec)) users) = Inr users"
  by (induction users) auto

subsection \<open>Dry-run calls and the counters\<close>

lemma dry_calls [simp]:
  "create_role w h r True = (h @ [Call (CreateRole r) True], True)"
  "drop_role w h r True = (h @ [Call (DropRole r) True], True)"
  "drop_user w h u True = (h @ [Call (DropUser u) True], True)"
  "create_user w h s pw True = (h @ [Call (CreateUser s) True], True)"
  "update_user_roles w h u old new True = (h @ [Call (UpdateUserRoles u old new) True], True)"
  by (simp_all add: create_role_def drop_role_def drop_user_def create_user_def
      update_user_roles_def Let_def)

lemma stats_note_drift [simp]:
  "roles_created (stats (note_drift a b c)) = roles_created (stats c)"
  "users_deleted (stats (note_drift a b c)) = users_deleted (stats c)"
  "users_created (stats (note_drift a b c)) = users_created (stats c)"
  by (simp_all add: note_drift_def Let_def)

lemma roles_created_dry:
  "roles_created (stats (create_roles_loop w True rs c)) = roles_created (stats c) + length rs"
  by (induction rs arbitrary: c) simp_all

lemma create_roles_loop_frame [simp]:
  "users_deleted (stats (create_roles_loop w dry rs c)) = users_deleted (stats c)"
  "users_created (stats (create_roles_loop w dry rs c)) = users_created (stats c)"
  by (induction rs arbitrary: c; simp)+

lemma users_deleted_dry:
  "users_deleted (stats (delete_loop w True prev us c))
     = users_deleted (stats c) + length (set_inter us (keys prev))"
  by (induction us arbitrary: c) (simp_all add: set_inter_def)

lemma delete_loop_frame [simp]:
  "roles_created (stats (delete_loop w dry prev us c)) = roles_created (stats c)"
  "users_created (stats (delete_loop w dry prev us c)) = users_created (stats c)"
  by (induction us arbitrary: c; simp)+

lemma create_step_frame [simp]:
  "roles_created (stats (create_step w dry desired u c)) = roles_created (stats c)"
  "users_deleted (stats (create_step w dry desired u c)) = users_deleted (stats c)"
  by (simp_all add: create_step_def split: option.splits api.splits)

lemma create_loop_frame [simp]:
  "roles_created (stats (create_loop w dry desired us c)) = roles_created (stats c)"
  "users_deleted (stats (create_loop w dry desired us c)) = users_deleted (stats c)"
  by (induction us arbitrary: c; simp)+

lemma users_created_step_dry:
  "dict_get desired u \<noteq> None \<Longrightarrow>
   users_created (stats (create_step w True desired u c))
     = users_created (stats c) + (if password_found w u then 1 else 0)"
  by (auto simp: create_step_def password_found_def split: option.splits api.splits)

lemma users_created_dry:
  "\<forall>u \<in> set us. dict_get desired u \<noteq> None \<Longrightarrow>
   users_created (stats (create_loop w True desired us c))
     = users_created (stats c) + length (filter (password_found w) us)"
  by (induction us arbitrary: c) (simp_all add: users_created_step_dry)

lemma update_step_frame [simp]:
  "roles_created (stats (update_step w dry desired prev u c)) = roles_created (stats c)"
  "users_deleted (stats (update_step w dry desired prev u c)) = users_deleted (stats c)"
  "users_created (stats (update_step w dry desired prev u c)) = users_created (stats c)"
  by (simp_all add: update_step_def Let_def split: option.splits prod.splits)

lemma update_loop_frame [simp]:
  "roles_created (stats (update_loop w dry desired prev us c)) = roles_created (stats c)"
  "users_deleted (stats (update_loop w dry desired prev us c)) = users_deleted (stats c)"
  "users_created (stats (update_loop w dry desired prev us c)) = users_created (stats c)"
  by (induction us arbitrary: c; simp)+

lemma users_to_create_desired:
  "u \<in> set (users_to_create desired actual) \<Longrightarrow> dict_get desired u \<noteq> None"
  by (auto simp: users_to_create_def set_minus_def keys_def dict_get_def map_of_eq_None_iff)

text \<open>The cycle once its four inputs are known and the roles query answers.\<close>

lemma cycle_unfold:
  assumes "configmap w = Found y" and "parse_desired_users w y = Inr desired"
    and "load_state w file = Inr previous"
    and "snd (fetch_existing_users w []) = Some actual"
  shows "cycle w dry file =
     reconcile_with w dry desired previous actual
       \<lparr>history = [Select ListUsers], stats = new_stats, state_file = file,
        users_managed = 0, roles_managed = 0\<rparr>"
  using assms
  by (simp add: cycle_def reconcile_users_def fetch_existing_users_def split: if_splits)

lemma reconcile_with_unfold:
  assumes "\<not> query_raises w (history c) ListRoles"
  shows "reconcile_with w dry desired previous actual c =
     update_metrics w desired
       (persist w dry desired
          (update_loop w dry desired previous (users_to_update desired actual)
             (create_loop w dry desired (users_to_create desired actual)
                (delete_loop w dry previous (users_to_delete desired actual)
                   (note_drift (users_to_create desired actual) (users_to_delete desired actual)
                      (create_roles_loop w dry
                         (set_minus (all_desired_roles desired)
                            (roles_query (pg_roles w (history c))))
                         (c\<lparr>history := history c @ [Select ListRoles]\<rparr>)))))))"
  using assms by (simp add: reconcile_with_def detect_drift_def reconcile_roles_ok)

lemma dry_counters:
  assumes "configmap w = Found y" and "parse_desired_users w y = Inr desired"
    and "load_state w file = Inr previous"
    and "snd (fetch_existing_users w []) = Some actual"
    and "\<not> query_raises w [Select ListUsers] ListRoles"
  shows "roles_created (stats (fst (cycle w True file)))
           = length (set_minus (all_desired_roles desired)
                       (roles_query (pg_roles w [Select ListUsers])))"
    and "users_deleted (stats (fst (cycle w True file)))
           = length (restricted_to_delete desired actual previous)"
    and "users_created (stats (fst (cycle w True file)))
           = length (filter (password_found w) (users_to_create desired actual))"
  using assms(5)
  by (simp_all add: cycle_unfold [OF assms(1-4)] reconcile_with_unfold roles_created_dry
      users_deleted_dry users_created_dry users_to_create_desired restricted_to_delete_def
      new_stats_def)

subsection \<open>The history only grows\<close>

lemma create_roles_loop_prefix: "prefix (history c) (history (create_roles_loop w dry rs c))"
proof (induction rs arbitrary: c)
  case Nil
  show ?case by simp
next
  case (Cons r rs)
  have "prefix (history c) (fst (create_role w (history c) r dry))"
    by (rule create_role_prefix)
  also have "prefix \<dots> (history (create_roles_loop w dry rs
               (counted inc_roles_created c (create_role w (history c) r dry))))"
    using Cons.IH [of "counted inc_roles_created c (create_role w (history c) r dry)"] by simp
  finally show ?case by simp
qed

lemma delete_step_prefix:
  "prefix (history c)
     (history (if u \<in> set (keys prev)
               then counted inc_users_deleted c (drop_user w (history c) u dry) else c))"
  using drop_user_prefix [of "history c" u dry w] by (auto dest: append_prefixD)

lemma delete_loop_prefix: "prefix (history c) (history (delete_loop w dry prev us c))"
proof (induction us arbitrary: c)
  case Nil
  show ?case by simp
next
  case (Cons u us)
  let ?c1 = "if u \<in> set (keys prev)
             then counted inc_users_deleted c (drop_user w (history c) u dry) else c"
  have "prefix (history c) (history ?c1)"
    by (rule delete_step_prefix)
  also have "prefix \<dots> (history (delete_loop w dry prev us ?c1))"
    by (rule Cons.IH)
  finally show ?case by simp
qed

lemma create_step_prefix: "prefix (history c) (history (create_step w dry desired u c))"
  by (simp add: create_step_def create_user_prefix split: option.splits api.splits)

lemma create_loop_prefix: "prefix (history c) (history (create_loop w dry desired us c))"
proof (induction us arbitrary: c)
  case Nil
  show ?case by simp
next
  case (Cons u us)
  have "prefix (history c) (history (create_step w dry desired u c))"
    by (rule create_step_prefix)
  also have "prefix \<dots> (history (create_loop w dry desired us (create_step w dry desired u c)))"
    by (rule Cons.IH)
  finally show ?case by simp
qed

lemma update_step_prefix: "prefix (history c) (history (update_step w dry desired prev u c))"
proof -
  have "prefix (history c)
          (fst (update_user_roles w (history c @ [Select (UserRoles u)]) u old new dry))"
    for old new
    using update_user_roles_prefix [of "history c @ [Select (UserRoles u)]" w u old new dry]
    by (rule append_prefixD)
  then show ?thesis
    by (simp add: update_step_def fetch_user_roles_def Let_def split: option.splits)
qed

lemma update_loop_prefix: "prefix (history c) (history (update_loop w dry desired prev us c))"
proof (induction us arbitrary: c)
  case Nil
  show ?case by simp
next
  case (Cons u us)
  have "prefix (history c) (history (update_step w dry desired prev u c))"
    by (rule update_step_prefix)
  also have "prefix \<dots> (history (update_loop w dry desired prev us
                                     (update_step w dry desired prev u c)))"
    by (rule Cons.IH)
  finally show ?case by simp
qed

lemma persist_prefix: "prefix (history c) (history (persist w dry desired c))"
  by (simp add: persist_def)

lemma update_metrics_prefix: "prefix (history c) (history (fst (update_metrics w desired c)))"
  by (simp add: update_metrics_def fetch_existing_roles_def)

text \<open>What is in the history after the deletions is in the history of the whole cycle.\<close>

lemma after_deletions_prefix:
  "prefix (history c)
     (history (fst (update_metrics w desired
        (persist w dry desired
           (update_loop w dry desired prev us2
              (create_loop w dry desired us1 c))))))"
proof -
  have "prefix (history c) (history (create_loop w dry desired us1 c))"
    by (rule create_loop_prefix)
  also have "prefix \<dots> (history (update_loop w dry desired prev us2
                                     (create_loop w dry desired us1 c)))"
    by (rule update_loop_prefix)
  also have "prefix \<dots> (history (persist w dry desired
                (update_loop w dry desired prev us2 (create_loop w dry desired us1 c))))"
    by (rule persist_prefix)
  also have "prefix \<dots> (history (fst (update_metrics w desired (persist w dry desired
                (update_loop w dry desired prev us2 (create_loop w dry desired us1 c))))))"
    by (rule update_metrics_prefix)
  finally show ?thesis .
qed

subsection \<open>Every owned user in the deletion set is dropped\<close>

lemma delete_loop_calls:
  "u \<in> set us \<Longrightarrow> u \<in> set (keys prev) \<Longrightarrow>
   Call (DropUser u) dry \<in> set (history (delete_loop w dry prev us c))"
proof (induction us arbitrary: c)
  case Nil
  then show ?case by simp
next
  case (Cons a us)
  let ?c1 = "if a \<in> set (keys prev)
             then counted inc_users_deleted c (drop_user w (history c) a dry) else c"
  show ?case
  proof (cases "u = a")
    case True
    have "prefix (history c @ [Call (DropUser u) dry]) (history ?c1)"
      using Cons.prems(2) True drop_user_prefix [of "history c" u dry w] by simp
    then have "Call (DropUser u) dry \<in> set (history ?c1)"
      using set_mono_prefix by fastforce
    moreover have "set (history ?c1) \<subseteq> set (history (delete_loop w dry prev us ?c1))"
      by (rule set_mono_prefix) (rule delete_loop_prefix)
    ultimately show ?thesis by auto
  next
    case False
    with Cons.prems have "u \<in> set us" by simp
    then have "Call (DropUser u) dry \<in> set (history (delete_loop w dry prev us ?c1))"
      using Cons.prems(2) by (rule Cons.IH)
    then show ?thesis by simp
  qed
qed

text \<open>When the database refuses nothing, \<^verbatim>\<open>drop_user\<close> executes its four statements.\<close>

lemma run_stmts_quiet:
  "(\<And>h s. \<not> execute_raises w h s) \<Longrightarrow> run_stmts w h ss = (h @ map Execute ss, True)"
  by (induction ss arbitrary: h) simp_all

lemma drop_user_executes:
  assumes "\<And>h. \<not> connect_raises w h" and "\<And>h s. \<not> execute_raises w h s"
  shows "prefix (h @ Call (DropUser u) False # map Execute (drop_user_sql w u))
           (fst (drop_user w h u False))"
  using assms(1)
  by (simp add: drop_user_def Let_def in_transaction_def run_stmts_quiet [OF assms(2)])

lemma delete_loop_executes:
  assumes "\<And>h. \<not> connect_raises w h" and "\<And>h s. \<not> execute_raises w h s"
  shows "u \<in> set us \<Longrightarrow> u \<in> set (keys prev) \<Longrightarrow> s \<in> set (drop_user_sql w u) \<Longrightarrow>
         Execute s \<in> set (history (delete_loop w False prev us c))"
proof (induction us arbitrary: c)
  case Nil
  then show ?case by simp
next
  case (Cons a us)
  let ?c1 = "if a \<in> set (keys prev)
             then counted inc_users_deleted c (drop_user w (history c) a False) else c"
  show ?case
  proof (cases "u = a")
    case True
    have "prefix (history c @ Call (DropUser u) False # map Execute (drop_user_sql w u))
            (history ?c1)"
      using Cons.prems(2) True drop_user_executes [OF assms, of "history c" u] by simp
    then have "set (history c @ Call (DropUser u) False # map Execute (drop_user_sql w u))
                 \<subseteq> set (history ?c1)"
      by (rule set_mono_prefix)
    then have "Execute s \<in> set (history ?c1)"
      using Cons.prems(3) by auto
    moreover have "set (history ?c1) \<subseteq> set (history (delete_loop w False prev us ?c1))"
      by (rule set_mono_prefix) (rule delete_loop_prefix)
    ultimately show ?thesis by auto
  next
    case False
    with Cons.prems have "u \<in> set us" by simp
    then have "Execute s \<in> set (history (delete_loop w False prev us ?c1))"
      using Cons.prems(2,3) by (rule Cons.IH)
    then show ?thesis by simp
  qed
qed

subsection \<open>The cycle as a whole\<close>

lemma reconcile_with_prefix:
  assumes "\<not> query_raises w (history c) ListRoles"
  shows "prefix (history c) (history (fst (reconcile_with w dry desired prev actual c)))"
proof -
  let ?c0 = "c\<lparr>history := history c @ [Select ListRoles]\<rparr>"
  let ?c1 = "create_roles_loop w dry
               (set_minus (all_desired_roles desired) (roles_query (pg_roles w (history c)))) ?c0"
  let ?c1' = "note_drift (users_to_create desired actual) (users_to_delete desired actual) ?c1"
  let ?c2 = "delete_loop w dry prev (users_to_delete desired actual) ?c1'"
  have "prefix (history c) (history ?c0)"
    by simp
  also have "prefix \<dots> (history ?c1)"
    by (rule create_roles_loop_prefix)
  also have "prefix \<dots> (history ?c2)"
    using delete_loop_prefix [of ?c1'] by simp
  also have "prefix \<dots> (history (fst (update_metrics w desired (persist w dry desired
                (update_loop w dry desired prev (users_to_update desired actual)
                   (create_loop w dry desired (users_to_create desired actual) ?c2))))))"
    by (rule after_deletions_prefix)
  finally show ?thesis
    by (simp add: reconcile_with_unfold [OF assms])
qed

lemma reconcile_with_drops:
  assumes "\<not> query_raises w (history c) ListRoles"
    and "u \<in> set (users_to_delete desired actual)" and "u \<in> set (keys prev)"
  shows "Call (DropUser u) dry \<in> set (history (fst (reconcile_with w dry desired prev actual c)))"
proof -
  let ?c1 = "note_drift (users_to_create desired actual) (users_to_delete desired actual)
             (create_roles_loop w dry
               (set_minus (all_desired_roles desired) (roles_query (pg_roles w (history c))))
               (c\<lparr>history := history c @ [Select ListRoles]\<rparr>))"
  let ?c2 = "delete_loop w dry prev (users_to_delete desired actual) ?c1"
  have "Call (DropUser u) dry \<in> set (history ?c2)"
    using assms(2,3) by (rule delete_loop_calls)
  moreover have "set (history ?c2) \<subseteq> set (history (fst (update_metrics w desired
                (persist w dry desired
                   (update_loop w dry desired prev (users_to_update desired actual)
                      (create_loop w dry desired (users_to_create desired actual) ?c2))))))"
    by (rule set_mono_prefix) (rule after_deletions_prefix)
  ultimately show ?thesis
    by (auto simp: reconcile_with_unfold [OF assms(1)])
qed

lemma reconcile_with_executes_drop:
  assumes "\<not> query_raises w (history c) ListRoles"
    and "\<And>h. \<not> connect_raises w h" and "\<And>h s. \<not> execute_raises w h s"
    and "u \<in> set (users_to_delete desired actual)" and "u \<in> set (keys prev)"
    and "s \<in> set (drop_user_sql w u)"
  shows "Execute s \<in> set (history (fst (reconcile_with w False desired prev actual c)))"
proof -
  let ?c1 = "note_drift (users_to_create desired actual) (users_to_delete desired actual)
             (create_roles_loop w False
               (set_minus (all_desired_roles desired) (roles_query (pg_roles w (history c))))
               (c\<lparr>history := history c @ [Select ListRoles]\<rparr>))"
  let ?c2 = "delete_loop w False prev (users_to_delete desired actual) ?c1"
  have "Execute s \<in> set (history ?c2)"
    using assms(2-6) by (rule delete_loop_executes)
  moreover have "set (history ?c2) \<subseteq> set (history (fst (update_metrics w desired
                (persist w False desired
                   (update_loop w False desired prev (users_to_update desired actual)
                      (create_loop w False desired (users_to_create desired actual) ?c2))))))"
    by (rule set_mono_prefix) (rule after_deletions_prefix)
  ultimately show ?thesis
    by (auto simp: reconcile_with_unfold [OF assms(1)])
qed

lemma reconcile_with_saves:
  assumes "\<not> query_raises w (history c) ListRoles"
  shows "SaveState desired \<in> set (history (fst (reconcile_with w False desired prev actual c)))"
  by (simp add: reconcile_with_unfold [OF assms] update_metrics_def fetch_existing_roles_def
      persist_def)

lemma parse_items_missing_username:
  "list_ex (\<lambda>ud. ud_username ud = None) us \<Longrightarrow> parse_items w us acc = None"
  by (induction us arbitrary: acc) (auto split: option.splits)

lemma parse_malformed:
  assumes "y \<noteq> []"
    and "safe_load w y = YamlError
         \<or> (\<exists>us. safe_load w y = Mapping (Some us) \<and> list_ex (\<lambda>ud. ud_username ud = None) us)"
  shows "parse_desired_users w y = Inr []"
  using assms by (auto simp: parse_desired_users_def parse_items_missing_username)

lemma users_to_delete_empty [simp]: "users_to_delete [] actual = actual"
  by (simp add: users_to_delete_def set_minus_def keys_def)

lemma allowed_in_history:
  "list_all (allowed dry prev) h \<Longrightarrow> e \<in> set h \<Longrightarrow> allowed dry prev e"
  by (simp add: list_all_iff)

lemma load_busy_file: "load_state busy_world busy_file = Inr busy_previous"
  by (simp add: load_state_def busy_file_def busy_world_def quiet_def)

lemma load_bob_file:
  "load_state orphan_world bob_file = Inr [(''bob'', bob_spec)]"
  "load_state nameless_world bob_file = Inr [(''bob'', bob_spec)]"
  by (simp_all add: load_state_def bob_file_def orphan_world_def nameless_world_def quiet_def
      UserSpec_of_asdict)

subsection \<open>Dry-run cycles\<close>

lemma allowed_dry:
  "allowed True prev e \<Longrightarrow> (\<exists>c. e = Call c True) \<or> (\<exists>q. e = Select q)"
  by (cases "(True, prev, e)" rule: allowed.cases) auto

lemma cycle_dry_events:
  assumes "e \<in> set (history (fst (cycle w True file)))"
  shows "(\<exists>c. e = Call c True) \<or> (\<exists>q. e = Select q)"
proof (cases "load_state w file")
  case (Inl err)
  then have "history (fst (cycle w True file)) = []"
    by (rule cycle_load_raises)
  with assms show ?thesis by simp
next
  case (Inr prev)
  then have "list_all (allowed True prev) (history (fst (cycle w True file)))"
    by (rule cycle_allowed)
  then have "allowed True prev e"
    using assms by (rule allowed_in_history)
  then show ?thesis by (rule allowed_dry)
qed

lemma cycle_reads:
  assumes "configmap w = Found y" and "parse_desired_users w y = Inr desired"
    and "load_state w file = Inr previous"
    and "snd (fetch_existing_users w []) = Some actual"
    and "\<not> query_raises w [Select ListUsers] ListRoles"
  shows "Select ListUsers \<in> set (history (fst (cycle w dry file)))"
    and "Select ListRoles \<in> set (history (fst (cycle w dry file)))"
proof -
  let ?c = "\<lparr>history = [Select ListUsers], stats = new_stats, state_file = file,
             users_managed = 0, roles_managed = 0\<rparr>"
  have q: "\<not> query_raises w (history ?c) ListRoles"
    using assms(5) by simp
  have "prefix (history ?c) (history (fst (cycle w dry file)))"
    using reconcile_with_prefix [OF q, of dry desired previous actual]
    by (simp add: cycle_unfold [OF assms(1-4)])
  then have "set (history ?c) \<subseteq> set (history (fst (cycle w dry file)))"
    by (rule set_mono_prefix)
  then show "Select ListUsers \<in> set (history (fst (cycle w dry file)))"
    by simp
  show "Select ListRoles \<in> set (history (fst (cycle w dry file)))"
    using q by (simp add: cycle_unfold [OF assms(1-4)] reconcile_with_unfold update_metrics_def
        fetch_existing_roles_def)
qed

lemma load_state_emptied: "load_state w (Some NotJson) = Inr []"
  by (simp add: load_state_def)

subsection \<open>The update loop in a dry run\<close>

lemma users_updated_frame [simp]:
  "users_updated (stats (note_drift a b c)) = users_updated (stats c)"
  "users_updated (stats (create_step w dry desired u c)) = users_updated (stats c)"
  by (simp_all add: note_drift_def Let_def create_step_def split: option.splits api.splits)

lemma users_updated_create_roles_loop [simp]:
  "users_updated (stats (create_roles_loop w dry rs c)) = users_updated (stats c)"
  by (induction rs arbitrary: c) simp_all

lemma users_updated_delete_loop [simp]:
  "users_updated (stats (delete_loop w dry prev us c)) = users_updated (stats c)"
  by (induction us arbitrary: c) simp_all

lemma users_updated_create_loop [simp]:
  "users_updated (stats (create_loop w dry desired us c)) = users_updated (stats c)"
  by (induction us arbitrary: c) simp_all

text \<open>
  A step of the update loop in a dry run, when the membership query does not raise and
  finds the memberships \<open>members\<close>.
\<close>

lemma update_step_dry:
  assumes "\<And>h. pg_auth_members w h = members" and "\<And>h u. \<not> query_raises w h (UserRoles u)"
  shows "update_step w True desired prev u c =
     (if roles_changed desired prev u then
        (if update_needed desired prev members u then
           inc_users_updated
             (c\<lparr>history := history c
                    @ [Select (UserRoles u),
                       Call (UpdateUserRoles u (user_roles_query members u)
                               (remdups (roles (the (dict_get desired u))))) True]\<rparr>)
         else c\<lparr>history := history c @ [Select (UserRoles u)]\<rparr>)
      else c)"
  using assms
  by (auto simp: update_step_def roles_changed_def update_needed_def fetch_user_roles_def
      Let_def counted_def split: option.splits)

lemma users_updated_step_dry:
  assumes "\<And>h. pg_auth_members w h = members" and "\<And>h u. \<not> query_raises w h (UserRoles u)"
  shows "users_updated (stats (update_step w True desired prev u c))
           = users_updated (stats c) + (if update_needed desired prev members u then 1 else 0)"
  by (simp add: update_step_dry [OF assms] update_needed_def)

lemma users_updated_dry:
  assumes "\<And>h. pg_auth_members w h = members" and "\<And>h u. \<not> query_raises w h (UserRoles u)"
  shows "users_updated (stats (update_loop w True desired prev us c))
           = users_updated (stats c) + length (filter (update_needed desired prev members) us)"
  by (induction us arbitrary: c) (simp_all add: users_updated_step_dry [OF assms])

lemma update_step_reads:
  assumes "roles_changed desired prev u"
  shows "Select (UserRoles u) \<in> set (history (update_step w dry desired prev u c))"
proof -
  obtain s p where s: "dict_get desired u = Some s" and p: "dict_get prev u = Some p"
    and r: "set (roles p) \<noteq> set (roles s)"
    using assms by (auto simp: roles_changed_def split: option.splits)
  have "Select (UserRoles u)
          \<in> set (fst (update_user_roles w (history c @ [Select (UserRoles u)]) u old new dry))"
    for old new
    using update_user_roles_prefix [of "history c @ [Select (UserRoles u)]" w u old new dry]
      set_mono_prefix by fastforce
  then show ?thesis
    using s p r by (simp add: update_step_def fetch_user_roles_def Let_def)
qed

lemma update_loop_reads:
  "u \<in> set us \<Longrightarrow> roles_changed desired prev u \<Longrightarrow>
   Select (UserRoles u) \<in> set (history (update_loop w dry desired prev us c))"
proof (induction us arbitrary: c)
  case Nil
  then show ?case by simp
next
  case (Cons a us)
  show ?case
  proof (cases "u = a")
    case True
    have "Select (UserRoles u) \<in> set (history (update_step w dry desired prev u c))"
      using Cons.prems(2) by (rule update_step_reads)
    moreover have "set (history (update_step w dry desired prev u c))
        \<subseteq> set (history (update_loop w dry desired prev us (update_step w dry desired prev u c)))"
      by (rule set_mono_prefix) (rule update_loop_prefix)
    ultimately show ?thesis
      using True by auto
  next
    case False
    with Cons.prems have "u \<in> set us" by simp
    then show ?thesis
      using Cons.prems(2) by (simp add: Cons.IH)
  qed
qed

lemma update_step_calls_dry:
  assumes "\<And>h. pg_auth_members w h = members" and "\<And>h u. \<not> query_raises w h (UserRoles u)"
    and "update_needed desired prev members u" and "dict_get desired u = Some s"
  shows "Call (UpdateUserRoles u (user_roles_query members u) (remdups (roles s))) True
           \<in> set (history (update_step w True desired prev u c))"
  using assms(3,4) by (simp add: update_step_dry [OF assms(1,2)] update_needed_def)

lemma update_loop_calls_dry:
  assumes "\<And>h. pg_auth_members w h = members" and "\<And>h u. \<not> query_raises w h (UserRoles u)"
  shows "u \<in> set us \<Longrightarrow> update_needed desired prev members u \<Longrightarrow> dict_get desired u = Some s \<Longrightarrow>
    Call (UpdateUserRoles u (user_roles_query members u) (remdups (roles s))) True
      \<in> set (history (update_loop w True desired prev us c))"
proof (induction us arbitrary: c)
  case Nil
  then show ?case by simp
next
  case (Cons a us)
  let ?e = "Call (UpdateUserRoles u (user_roles_query members u) (remdups (roles s))) True"
  show ?case
  proof (cases "u = a")
    case True
    have "?e \<in> set (history (update_step w True desired prev u c))"
      using assms Cons.prems(2,3) by (rule update_step_calls_dry)
    moreover have "set (history (update_step w True desired prev u c))
        \<subseteq> set (history (update_loop w True desired prev us (update_step w True desired prev u c)))"
      by (rule set_mono_prefix) (rule update_loop_prefix)
    ultimately show ?thesis
      using True by auto
  next
    case False
    with Cons.prems have "u \<in> set us" by simp
    then show ?thesis
      using Cons.prems(2,3) by (simp add: Cons.IH)
  qed
qed

text \<open>What is in the history after the updates is in the history of the whole cycle.\<close>

lemma after_updates_subset:
  "set (history c) \<subseteq> set (history (fst (update_metrics w desired (persist w dry desired c))))"
proof -
  have "prefix (history c) (history (persist w dry desired c))"
    by (rule persist_prefix)
  also have "prefix \<dots> (history (fst (update_metrics w desired (persist w dry desired c))))"
    by (rule update_metrics_prefix)
  finally show ?thesis
    by (rule set_mono_prefix)
qed

lemma cycle_membership_reads:
  assumes "configmap w = Found y" and "parse_desired_users w y = Inr desired"
    and "load_state w file = Inr previous"
    and "snd (fetch_existing_users w []) = Some actual"
    and "\<not> query_raises w [Select ListUsers] ListRoles"
    and "u \<in> set (users_to_update desired actual)" and "roles_changed desired previous u"
  shows "Select (UserRoles u) \<in> set (history (fst (cycle w dry file)))"
  using assms(5) update_loop_reads [OF assms(6,7)] after_updates_subset
  by (simp add: cycle_unfold [OF assms(1-4)] reconcile_with_unfold, blast)

lemma dry_updates:
  assumes "configmap w = Found y" and "parse_desired_users w y = Inr desired"
    and "load_state w file = Inr previous"
    and "snd (fetch_existing_users w []) = Some actual"
    and "\<not> query_raises w [Select ListUsers] ListRoles"
    and "\<And>h. pg_auth_members w h = members" and "\<And>h u. \<not> query_raises w h (UserRoles u)"
  shows "users_updated (stats (fst (cycle w True file)))
           = length (filter (update_needed desired previous members)
                       (users_to_update desired actual))"
    and "u \<in> set (users_to_update desired actual) \<Longrightarrow> update_needed desired previous members u \<Longrightarrow>
         dict_get desired u = Some s \<Longrightarrow>
         Call (UpdateUserRoles u (user_roles_query members u) (remdups (roles s))) True
           \<in> set (history (fst (cycle w True file)))"
proof -
  show "users_updated (stats (fst (cycle w True file)))
           = length (filter (update_needed desired previous members)
                       (users_to_update desired actual))"
    using assms(5)
    by (simp add: cycle_unfold [OF assms(1-4)] reconcile_with_unfold
        users_updated_dry [OF assms(6,7)] new_stats_def)
  show "Call (UpdateUserRoles u (user_roles_query members u) (remdups (roles s))) True
           \<in> set (history (fst (cycle w True file)))"
    if "u \<in> set (users_to_update desired actual)" and "update_needed desired previous members u"
      and "dict_get desired u = Some s"
    using assms(5) update_loop_calls_dry [OF assms(6,7) that] after_updates_subset
    by (simp add: cycle_unfold [OF assms(1-4)] reconcile_with_unfold, blast)
qed

section \<open>The claims\<close>

subsection \<open>C4: the live-users query\<close>

text \<open>
  C4 says that \<^verbatim>\<open>fetch_existing_users\<close> returns the roles that can log in, minus the
  system roles, so that no group role is among them. The query of the code filters on the
  role name only; \<^verbatim>\<open>fetch_existing_roles\<close> next to it does test \<^verbatim>\<open>rolcanlogin\<close>. On a
  catalogue with the group role \<^verbatim>\<open>read_only\<close> (no login), the login role \<^verbatim>\<open>alice\<close> and
  the system role \<^verbatim>\<open>postgres\<close>, the users returned are \<^verbatim>\<open>read_only\<close> and \<^verbatim>\<open>alice\<close>: the
  group role is reported as a user.
\<close>

theorem fetch_existing_users_returns_group_role:
  "snd (fetch_existing_users catalogue_world []) = Some [''read_only'', ''alice'']
   \<and> snd (fetch_existing_roles catalogue_world []) = Some [''read_only'']"
  by (simp add: fetch_existing_users_def fetch_existing_roles_def users_query_def roles_query_def
      catalogue_world_def quiet_def SYSTEM_ROLES_def)

subsection \<open>C1: privilege keywords and identifiers in the GRANT statements\<close>

text \<open>
  C1 says that every privilege keyword in the GRANT statements of \<^verbatim>\<open>create_user\<close> comes
  from an allow-list and that no input opens a way to inject SQL. Identifiers do go through
  \<^verbatim>\<open>sql.Identifier\<close>, but \<^verbatim>\<open>_grant_privileges\<close> wraps the privilege in \<^verbatim>\<open>sql.SQL\<close>, which
  copies it into the statement unchanged, and nothing checks it against any list. For a
  user record whose privilege is the text
  \<^verbatim>\<open>ALL ON SCHEMA public TO PUBLIC; DROP TABLE t; --\<close>, the statement that \<^verbatim>\<open>create_user\<close>
  executes carries that text as SQL.
\<close>

theorem grant_privileges_emits_raw_keyword:
  "map (\<lambda>s. as_string (fst s)) (grant_privileges mallory_spec)
     = [''GRANT ALL ON SCHEMA public TO PUBLIC; DROP TABLE t; -- ON '' @ quote_ident ''public''
        @ '' TO '' @ quote_ident ''mallory'' @ '';'']
   \<and> fst (create_user quiet [] mallory_spec ''pw'' False)
     = Call (CreateUser mallory_spec) False
       # map Execute (create_user_sql mallory_spec ''pw'') @ [Commit]
   \<and> grant_privilege_sql ''ALL ON SCHEMA public TO PUBLIC; DROP TABLE t; --'' ''public'' ''mallory''
       \<in> set (create_user_sql mallory_spec ''pw'')"
  by (simp add: grant_privileges_def grant_privilege_sql_def as_string_def mallory_spec_def
      create_user_def create_user_sql_def in_transaction_def quiet_def grant_role_sql_def)

subsection \<open>C2: the system roles\<close>

text \<open>
  C2 says that no cycle issues DDL against a system role, whatever the desired spec names.
  The code uses \<^verbatim>\<open>SYSTEM_ROLES\<close> only to filter what the two catalogue queries return;
  the desired spec is never checked against it. Since the system roles are filtered out of
  the live views, a desired user \<^verbatim>\<open>postgres\<close> in the group \<^verbatim>\<open>pg_monitor\<close> looks missing:
  the cycle executes \<^verbatim>\<open>CREATE ROLE "pg_monitor" NOLOGIN\<close>, \<^verbatim>\<open>CREATE USER "postgres"\<close>
  and \<^verbatim>\<open>GRANT "pg_monitor" TO "postgres"\<close>.
\<close>

theorem cycle_creates_system_roles:
  "history (fst (cycle system_world False None)) =
     [Select ListUsers, Select ListRoles,
      Call (CreateRole ''pg_monitor'') False,
      Execute (create_role_sql ''pg_monitor''),
      Call (CreateUser \<lparr>username = ''postgres'', database = ''postgres'', roles = [''pg_monitor''],
                          privileges = None\<rparr>) False,
      Execute ([SQL ''CREATE USER '', Identifier ''postgres'', SQL '' WITH PASSWORD %s;''], [''pw'']),
      Execute ([SQL ''GRANT CONNECT ON DATABASE '', Identifier ''postgres'', SQL '' TO '',
                Identifier ''postgres'', SQL '';''], []),
      Execute (grant_role_sql ''pg_monitor'' ''postgres''),
      Commit,
      SaveState [(''postgres'', \<lparr>username = ''postgres'', database = ''postgres'',
                                  roles = [''pg_monitor''], privileges = None\<rparr>)],
      Select ListRoles]
   \<and> ''postgres'' \<in> set SYSTEM_ROLES \<and> ''pg_monitor'' \<in> set SYSTEM_ROLES"
  by code_simp

subsection \<open>C9: the persisted state round-trips\<close>

text \<open>
  C9: for every spec that maps usernames to user records, loading right after saving
  returns the spec that was saved, \<^verbatim>\<open>load(save(spec)) == spec\<close>, when neither the write
  nor the read meets an IO failure.
\<close>

theorem load_after_save_roundtrip:
  assumes "save_fault w = NoFault" and "\<not> load_fault w"
  shows "load_state w (save_state w file users) = Inr users"
  using assms by (simp add: load_state_def save_state_eq)

text \<open>The round trip at a spec of two users, over an older state file.\<close>

theorem load_after_save_roundtrip_witness:
  "save_fault quiet = NoFault \<and> \<not> load_fault quiet
   \<and> load_state quiet (save_state quiet bob_file [(''alice'', alice_spec), (''bob'', bob_spec)])
       = Inr [(''alice'', alice_spec), (''bob'', bob_spec)]"
proof -
  have a: "save_fault quiet = NoFault" and b: "\<not> load_fault quiet"
    by (simp_all add: quiet_def)
  show ?thesis
    using a b load_after_save_roundtrip [OF a b, of bob_file "[(''alice'', alice_spec), (''bob'', bob_spec)]"]
    by simp
qed

subsection \<open>C5: how the state file is replaced\<close>

text \<open>
  C5 says that \<^verbatim>\<open>save_state\<close> writes a temporary sibling file and renames it over the
  target, so that after any IO failure a load returns the prior state. The code opens the
  state file itself for writing. When the write stops half way, with \<^verbatim>\<open>bob\<close> in the prior
  state and \<^verbatim>\<open>alice\<close> to be saved, the file holds text that is not JSON, and the load that
  follows returns the empty state, not the prior one.
\<close>

theorem failed_save_loses_prior_state:
  "save_fault write_fails = WriteFails
   \<and> load_state write_fails bob_file = Inr [(''bob'', bob_spec)]
   \<and> save_state write_fails bob_file [(''alice'', alice_spec)] = Some NotJson
   \<and> load_state write_fails (save_state write_fails bob_file [(''alice'', alice_spec)]) = Inr []
   \<and> load_state write_fails (save_state write_fails bob_file [(''alice'', alice_spec)])
       \<noteq> load_state write_fails bob_file"
  by (simp add: write_fails_def quiet_def bob_file_def load_state_def save_state_eq)

text \<open>
  C5 as amended: \<^verbatim>\<open>save_state\<close> replaces the state file in place. All it asks of the
  disk is to open the state file itself for writing and, when that succeeds, to dump the
  JSON into it: it renames nothing and leaves every other path as it was, so there is no
  temporary sibling file. Once the file is open its prior content is gone already. The
  method logs an error exactly when an IO failure occurs. Without a failure the file then
  holds the saved spec and a load returns it; when the file cannot be opened the disk is
  as before; when the write fails part way the file holds a partial document and a load
  returns the empty state. The state file the cycle keeps is the file at that path.
\<close>

theorem save_state_writes_in_place:
  "(\<forall>path. path \<noteq> STATE_FILE w \<longrightarrow> disk_after (save_state_disk w d users) path = d path)
   \<and> (\<exists>rest. disk_ops (save_state_disk w d users) = OpenForWriting (STATE_FILE w) # rest
              \<and> (rest = [] \<or> rest = [DumpJson (STATE_FILE w)]))
   \<and> (\<forall>a b. Rename a b \<notin> set (disk_ops (save_state_disk w d users)))
   \<and> load_state w (open_for_writing d (STATE_FILE w) (STATE_FILE w)) = Inr []
   \<and> error_logged (save_state_disk w d users) = (save_fault w \<noteq> NoFault)
   \<and> (save_fault w = NoFault \<longrightarrow>
        disk_after (save_state_disk w d users) (STATE_FILE w)
          = Some (Json (JObject (map (\<lambda>(u, spec). (u, asdict spec)) users)))
        \<and> (\<not> load_fault w \<longrightarrow>
             load_state w (disk_after (save_state_disk w d users) (STATE_FILE w)) = Inr users))
   \<and> (save_fault w = OpenFails \<longrightarrow>
        disk_after (save_state_disk w d users) = d
        \<and> disk_ops (save_state_disk w d users) = [OpenForWriting (STATE_FILE w)])
   \<and> (save_fault w = WriteFails \<longrightarrow>
        disk_after (save_state_disk w d users) (STATE_FILE w) = Some NotJson
        \<and> load_state w (disk_after (save_state_disk w d users) (STATE_FILE w)) = Inr [])
   \<and> save_state w (d (STATE_FILE w)) users
       = disk_after (save_state_disk w d users) (STATE_FILE w)"
proof -
  have 1: "disk_after (save_state_disk w d users) path = d path" if "path \<noteq> STATE_FILE w" for path
    using that
    by (simp add: save_state_disk_def open_for_writing_def json_dump_def Let_def
        split: io_fault.splits)
  have 2: "\<exists>rest. disk_ops (save_state_disk w d users) = OpenForWriting (STATE_FILE w) # rest
              \<and> (rest = [] \<or> rest = [DumpJson (STATE_FILE w)])"
    by (simp add: save_state_disk_def Let_def split: io_fault.splits)
  have 3: "Rename a b \<notin> set (disk_ops (save_state_disk w d users))" for a b
    by (simp add: save_state_disk_def Let_def split: io_fault.splits)
  have 4: "load_state w (open_for_writing d (STATE_FILE w) (STATE_FILE w)) = Inr []"
    by (simp add: open_for_writing_def load_state_emptied)
  have 5: "error_logged (save_state_disk w d users) = (save_fault w \<noteq> NoFault)"
    by (simp add: save_state_disk_def Let_def split: io_fault.splits)
  have c: "disk_after (save_state_disk w d users) (STATE_FILE w)
             = save_state w (d (STATE_FILE w)) users"
    by (rule save_state_disk_content)
  have 6: "save_fault w = NoFault \<longrightarrow>
        disk_after (save_state_disk w d users) (STATE_FILE w)
          = Some (Json (JObject (map (\<lambda>(u, spec). (u, asdict spec)) users)))
        \<and> (\<not> load_fault w \<longrightarrow>
             load_state w (disk_after (save_state_disk w d users) (STATE_FILE w)) = Inr users)"
    by (simp add: c save_state_eq load_state_def)
  have 7: "save_fault w = OpenFails \<longrightarrow>
        disk_after (save_state_disk w d users) = d
        \<and> disk_ops (save_state_disk w d users) = [OpenForWriting (STATE_FILE w)]"
    by (simp add: save_state_disk_def Let_def)
  have 8: "save_fault w = WriteFails \<longrightarrow>
        disk_after (save_state_disk w d users) (STATE_FILE w) = Some NotJson
        \<and> load_state w (disk_after (save_state_disk w d users) (STATE_FILE w)) = Inr []"
    by (simp add: c save_state_eq load_state_emptied)
  have a1: "\<forall>path. path \<noteq> STATE_FILE w \<longrightarrow> disk_after (save_state_disk w d users) path = d path"
    using 1 by blast
  have a3: "\<forall>a b. Rename a b \<notin> set (disk_ops (save_state_disk w d users))"
    using 3 by blast
  note 9 = c [symmetric]
  show ?thesis
    by (intro conjI; fact)
qed

text \<open>
  The three cases on a disk whose state file knows \<^verbatim>\<open>bob\<close>, saving \<^verbatim>\<open>alice\<close>; the path
  of a would-be temporary file stays absent.
\<close>

theorem save_state_writes_in_place_witness:
  "STATE_FILE quiet = ''/tmp/users_state.json''
   \<and> save_fault quiet = NoFault \<and> save_fault open_fails = OpenFails
   \<and> save_fault write_fails = WriteFails
   \<and> disk_after (save_state_disk quiet bob_disk [(''alice'', alice_spec)])
         ''/tmp/users_state.json.tmp'' = bob_disk ''/tmp/users_state.json.tmp''
   \<and> Rename ''/tmp/users_state.json.tmp'' ''/tmp/users_state.json''
         \<notin> set (disk_ops (save_state_disk quiet bob_disk [(''alice'', alice_spec)]))
   \<and> error_logged (save_state_disk quiet bob_disk [(''alice'', alice_spec)]) = False
   \<and> disk_after (save_state_disk quiet bob_disk [(''alice'', alice_spec)]) (STATE_FILE quiet)
         = Some (Json (JObject [(''alice'', asdict alice_spec)]))
   \<and> load_state quiet
         (disk_after (save_state_disk quiet bob_disk [(''alice'', alice_spec)]) (STATE_FILE quiet))
         = Inr [(''alice'', alice_spec)]
   \<and> disk_after (save_state_disk open_fails bob_disk [(''alice'', alice_spec)]) = bob_disk
   \<and> error_logged (save_state_disk open_fails bob_disk [(''alice'', alice_spec)]) = True
   \<and> disk_after (save_state_disk write_fails bob_disk [(''alice'', alice_spec)])
         (STATE_FILE write_fails) = Some NotJson
   \<and> load_state write_fails
         (disk_after (save_state_disk write_fails bob_disk [(''alice'', alice_spec)])
            (STATE_FILE write_fails)) = Inr []
   \<and> error_logged (save_state_disk write_fails bob_disk [(''alice'', alice_spec)]) = True"
proof -
  have p: "STATE_FILE quiet = ''/tmp/users_state.json''"
    and a: "save_fault quiet = NoFault" and a': "\<not> load_fault quiet"
    and b: "save_fault open_fails = OpenFails"
    and c: "save_fault write_fails = WriteFails"
    and n: "''/tmp/users_state.json.tmp'' \<noteq> STATE_FILE quiet"
    by (simp_all add: quiet_def open_fails_def write_fails_def)
  note t1 = save_state_writes_in_place [of quiet bob_disk "[(''alice'', alice_spec)]"]
  note t2 = save_state_writes_in_place [of open_fails bob_disk "[(''alice'', alice_spec)]"]
  note t3 = save_state_writes_in_place [of write_fails bob_disk "[(''alice'', alice_spec)]"]
  have 1: "disk_after (save_state_disk quiet bob_disk [(''alice'', alice_spec)])
         ''/tmp/users_state.json.tmp'' = bob_disk ''/tmp/users_state.json.tmp''"
    using t1 n by blast
  have 2: "Rename ''/tmp/users_state.json.tmp'' ''/tmp/users_state.json''
         \<notin> set (disk_ops (save_state_disk quiet bob_disk [(''alice'', alice_spec)]))"
    using t1 by blast
  have 3: "error_logged (save_state_disk quiet bob_disk [(''alice'', alice_spec)]) = False"
    using t1 a by simp
  have 4: "disk_after (save_state_disk quiet bob_disk [(''alice'', alice_spec)]) (STATE_FILE quiet)
         = Some (Json (JObject [(''alice'', asdict alice_spec)]))"
    using t1 a by simp
  have 5: "load_state quiet
         (disk_after (save_state_disk quiet bob_disk [(''alice'', alice_spec)]) (STATE_FILE quiet))
         = Inr [(''alice'', alice_spec)]"
    using t1 a a' by blast
  have 6: "disk_after (save_state_disk open_fails bob_disk [(''alice'', alice_spec)]) = bob_disk"
    using t2 b by blast
  have 7: "error_logged (save_state_disk open_fails bob_disk [(''alice'', alice_spec)]) = True"
    using t2 b by simp
  have 8: "disk_after (save_state_disk write_fails bob_disk [(''alice'', alice_spec)])
         (STATE_FILE write_fails) = Some NotJson"
    using t3 c by blast
  have 9: "load_state write_fails
         (disk_after (save_state_disk write_fails bob_disk [(''alice'', alice_spec)])
            (STATE_FILE write_fails)) = Inr []"
    using t3 c by blast
  have 10: "error_logged (save_state_disk write_fails bob_disk [(''alice'', alice_spec)]) = True"
    using t3 c by simp
  show ?thesis
    by (intro conjI; fact)
qed

subsection \<open>C3: orphan protection\<close>

text \<open>
  C3: a user that is not a key of the loaded last-applied state is never passed to
  \<^verbatim>\<open>drop_user\<close> in the cycle, whatever the desired spec and the database say; in
  particular a live user that is neither desired nor in the last-applied state is left
  alone. A user is dropped only if the last-applied state has it.
\<close>

theorem orphan_protection:
  assumes "load_state w file = Inr previous" and "u \<notin> set (keys previous)"
  shows "Call (DropUser u) d \<notin> set (history (fst (cycle w dry file)))"
proof
  assume "Call (DropUser u) d \<in> set (history (fst (cycle w dry file)))"
  with cycle_allowed [OF assms(1), of dry] have "allowed dry previous (Call (DropUser u) d)"
    by (rule allowed_in_history)
  with assms(2) show False by simp
qed

text \<open>
  In the busy world \<^verbatim>\<open>charlie\<close> is live, not desired and not in the state file: no
  \<^verbatim>\<open>drop_user\<close> for him, while \<^verbatim>\<open>bob\<close>, who is in the state file, is dropped.
\<close>

theorem orphan_protection_witness:
  "load_state busy_world busy_file = Inr busy_previous
   \<and> ''charlie'' \<notin> set (keys busy_previous)
   \<and> Call (DropUser ''charlie'') False \<notin> set (history (fst (cycle busy_world False busy_file)))
   \<and> Call (DropUser ''bob'') False \<in> set (history (fst (cycle busy_world False busy_file)))"
proof -
  have k: "''charlie'' \<notin> set (keys busy_previous)"
    by (simp add: keys_def busy_previous_def)
  have b: "Call (DropUser ''bob'') False \<in> set (history (fst (cycle busy_world False busy_file)))"
    by code_simp
  show ?thesis
    using load_busy_file k b orphan_protection [OF load_busy_file k, of False False]
    by blast
qed

subsection \<open>C10: no role update for a user the last-applied state does not know\<close>

text \<open>
  C10: for a user that is absent from the loaded last-applied state (also one that is both
  desired and live, with live memberships that differ from the desired roles), the cycle
  makes no role-membership query and no call of \<^verbatim>\<open>update_user_roles\<close>.
\<close>

theorem no_role_update_without_previous_state:
  assumes "load_state w file = Inr previous" and "u \<notin> set (keys previous)"
  shows "Select (UserRoles u) \<notin> set (history (fst (cycle w dry file)))
         \<and> Call (UpdateUserRoles u old new) d \<notin> set (history (fst (cycle w dry file)))"
proof -
  have "\<not> allowed dry previous (Select (UserRoles u))"
    and "\<not> allowed dry previous (Call (UpdateUserRoles u old new) d)"
    using assms(2) by simp_all
  then show ?thesis
    using cycle_allowed [OF assms(1), of dry] allowed_in_history by blast
qed

text \<open>
  In the busy world \<^verbatim>\<open>erin\<close> is desired and live, her live role is \<^verbatim>\<open>ro\<close> where \<^verbatim>\<open>rw\<close> is
  desired, and the state file does not know her: no query of her memberships and no
  \<^verbatim>\<open>update_user_roles\<close>. For \<^verbatim>\<open>dave\<close>, whom the state file knows with other roles, both
  happen.
\<close>

theorem no_role_update_without_previous_state_witness:
  "load_state busy_world busy_file = Inr busy_previous
   \<and> ''erin'' \<notin> set (keys busy_previous)
   \<and> parse_desired_users busy_world busy_yaml
        = Inr [(''alice'', alice_spec),
               (''dave'', \<lparr>username = ''dave'', database = ''app'', roles = [''rw''],
                           privileges = None\<rparr>),
               (''erin'', \<lparr>username = ''erin'', database = ''postgres'', roles = [''rw''],
                           privileges = None\<rparr>)]
   \<and> snd (fetch_existing_users busy_world [])
        = Some [''bob'', ''charlie'', ''dave'', ''erin'', ''ro'']
   \<and> user_roles_query (pg_auth_members busy_world []) ''erin'' = [''ro'']
   \<and> Select (UserRoles ''erin'') \<notin> set (history (fst (cycle busy_world False busy_file)))
   \<and> Call (UpdateUserRoles ''erin'' [''ro''] [''rw'']) False
        \<notin> set (history (fst (cycle busy_world False busy_file)))
   \<and> Select (UserRoles ''dave'') \<in> set (history (fst (cycle busy_world False busy_file)))
   \<and> Call (UpdateUserRoles ''dave'' [''ro''] [''rw'']) False
        \<in> set (history (fst (cycle busy_world False busy_file)))"
proof -
  have k: "''erin'' \<notin> set (keys busy_previous)"
    by (simp add: keys_def busy_previous_def)
  have p: "parse_desired_users busy_world busy_yaml
        = Inr [(''alice'', alice_spec),
               (''dave'', \<lparr>username = ''dave'', database = ''app'', roles = [''rw''],
                           privileges = None\<rparr>),
               (''erin'', \<lparr>username = ''erin'', database = ''postgres'', roles = [''rw''],
                           privileges = None\<rparr>)]"
    by code_simp
  have u: "snd (fetch_existing_users busy_world [])
        = Some [''bob'', ''charlie'', ''dave'', ''erin'', ''ro'']"
    by code_simp
  have r: "user_roles_query (pg_auth_members busy_world []) ''erin'' = [''ro'']"
    by code_simp
  have d: "Select (UserRoles ''dave'') \<in> set (history (fst (cycle busy_world False busy_file)))"
    "Call (UpdateUserRoles ''dave'' [''ro''] [''rw'']) False
        \<in> set (history (fst (cycle busy_world False busy_file)))"
    by code_simp+
  show ?thesis
    using load_busy_file k p u r d
      no_role_update_without_previous_state [OF load_busy_file k, of False "[''ro'']" "[''rw'']" False]
    by blast
qed

subsection \<open>C6: a spec that does not parse\<close>

text \<open>
  C6: when the ConfigMap is fetched and its YAML is malformed, or an entry lacks the
  required \<^verbatim>\<open>username\<close>, the desired spec of the cycle is empty. Provided the state file
  loads and the two catalogue queries answer, every live user that the last-applied state
  has is passed to \<^verbatim>\<open>drop_user\<close> in that cycle, and outside dry-run \<^verbatim>\<open>save_state\<close> is
  called with the empty map, so that the state file becomes what \<^verbatim>\<open>save_state\<close> makes of
  the empty map. When moreover the database refuses no connection and no statement, the
  four statements of \<^verbatim>\<open>drop_user\<close> are executed for each of these users.
\<close>

theorem malformed_spec_drops_owned_users:
  assumes "configmap w = Found y" and "y \<noteq> []"
    and "safe_load w y = YamlError
         \<or> (\<exists>us. safe_load w y = Mapping (Some us) \<and> list_ex (\<lambda>ud. ud_username ud = None) us)"
    and "load_state w file = Inr previous"
    and "snd (fetch_existing_users w []) = Some actual"
    and "\<not> query_raises w [Select ListUsers] ListRoles"
  shows "parse_desired_users w y = Inr []
    \<and> (\<forall>u. u \<in> set actual \<and> u \<in> set (keys previous) \<longrightarrow>
          Call (DropUser u) dry \<in> set (history (fst (cycle w dry file))))
    \<and> (\<not> dry \<longrightarrow>
          SaveState [] \<in> set (history (fst (cycle w dry file)))
          \<and> state_file (fst (cycle w dry file)) = save_state w file [])
    \<and> (\<not> dry \<and> (\<forall>h. \<not> connect_raises w h) \<and> (\<forall>h s. \<not> execute_raises w h s) \<longrightarrow>
          (\<forall>u. u \<in> set actual \<and> u \<in> set (keys previous) \<longrightarrow>
             (\<forall>s \<in> set (drop_user_sql w u).
                Execute s \<in> set (history (fst (cycle w dry file))))))"
proof -
  let ?c = "\<lparr>history = [Select ListUsers], stats = new_stats, state_file = file,
             users_managed = 0, roles_managed = 0\<rparr>"
  have p: "parse_desired_users w y = Inr []"
    using assms(2,3) by (rule parse_malformed)
  have c: "cycle w d file = reconcile_with w d [] previous actual ?c" for d
    using assms(1) p assms(4,5) by (rule cycle_unfold)
  have q: "\<not> query_raises w (history ?c) ListRoles"
    using assms(6) by simp
  have 1: "Call (DropUser u) dry \<in> set (history (fst (cycle w dry file)))"
    if "u \<in> set actual" and "u \<in> set (keys previous)" for u
    using reconcile_with_drops [OF q, of u "[]" actual previous dry] that by (simp add: c)
  have 2: "SaveState [] \<in> set (history (fst (cycle w dry file)))" if "\<not> dry"
    using reconcile_with_saves [OF q, of "[]" previous actual] that by (simp add: c)
  have 3: "state_file (fst (cycle w dry file)) = save_state w file []" if "\<not> dry"
    using q that by (simp add: c state_file_reconcile_with reconcile_roles_ok)
  have 4: "Execute s \<in> set (history (fst (cycle w dry file)))"
    if "\<not> dry" and "\<forall>h. \<not> connect_raises w h" and "\<forall>h s. \<not> execute_raises w h s"
      and "u \<in> set actual" and "u \<in> set (keys previous)" and "s \<in> set (drop_user_sql w u)"
    for u s
    using reconcile_with_executes_drop [OF q, of u "[]" actual previous s] that by (simp add: c)
  show ?thesis
    using p 1 2 3 4 by blast
qed

text \<open>
  The world whose YAML does not parse, with \<^verbatim>\<open>bob\<close> and \<^verbatim>\<open>charlie\<close> live and \<^verbatim>\<open>bob\<close> in
  the state file: \<^verbatim>\<open>bob\<close> is dropped and the state file becomes the empty object. The
  same in dry-run for the world whose entry has no \<^verbatim>\<open>username\<close>.
\<close>

theorem malformed_spec_drops_owned_users_witness:
  "configmap orphan_world = Found ''users: ['' \<and> safe_load orphan_world ''users: ['' = YamlError
   \<and> load_state orphan_world bob_file = Inr [(''bob'', bob_spec)]
   \<and> snd (fetch_existing_users orphan_world []) = Some [''bob'', ''charlie'']
   \<and> parse_desired_users orphan_world ''users: ['' = Inr []
   \<and> Call (DropUser ''bob'') False \<in> set (history (fst (cycle orphan_world False bob_file)))
   \<and> SaveState [] \<in> set (history (fst (cycle orphan_world False bob_file)))
   \<and> state_file (fst (cycle orphan_world False bob_file)) = Some (Json (JObject []))
   \<and> Execute ([SQL ''DROP USER IF EXISTS '', Identifier ''bob'', SQL '';''], [])
        \<in> set (history (fst (cycle orphan_world False bob_file)))
   \<and> parse_desired_users nameless_world ''users: [{database: app}]'' = Inr []
   \<and> Call (DropUser ''bob'') True \<in> set (history (fst (cycle nameless_world True bob_file)))"
proof -
  have a: "configmap orphan_world = Found ''users: [''" and y: "''users: ['' \<noteq> []"
    and m: "safe_load orphan_world ''users: ['' = YamlError"
    and q: "\<not> query_raises orphan_world [Select ListUsers] ListRoles"
    and f: "\<forall>h. \<not> connect_raises orphan_world h" "\<forall>h s. \<not> execute_raises orphan_world h s"
    and s: "save_state orphan_world bob_file [] = Some (Json (JObject []))"
    by (simp_all add: orphan_world_def quiet_def save_state_eq)
  have u: "snd (fetch_existing_users orphan_world []) = Some [''bob'', ''charlie'']"
    by (simp add: fetch_existing_users_def users_query_def orphan_world_def quiet_def
        SYSTEM_ROLES_def)
  have m': "safe_load orphan_world ''users: ['' = YamlError
        \<or> (\<exists>us. safe_load orphan_world ''users: ['' = Mapping (Some us)
                 \<and> list_ex (\<lambda>ud. ud_username ud = None) us)"
    using m by simp
  have k: "''bob'' \<in> set [''bob'', ''charlie'']" "''bob'' \<in> set (keys [(''bob'', bob_spec)])"
    by (simp_all add: keys_def)
  have d: "([SQL ''DROP USER IF EXISTS '', Identifier ''bob'', SQL '';''], [])
             \<in> set (drop_user_sql orphan_world ''bob'')"
    by (simp add: drop_user_sql_def)
  note t = malformed_spec_drops_owned_users [OF a y m' load_bob_file(1) u q, of False]
  have 1: "parse_desired_users orphan_world ''users: ['' = Inr []"
    and 2: "Call (DropUser ''bob'') False \<in> set (history (fst (cycle orphan_world False bob_file)))"
    and 3: "SaveState [] \<in> set (history (fst (cycle orphan_world False bob_file)))"
    and 4: "state_file (fst (cycle orphan_world False bob_file)) = Some (Json (JObject []))"
    and 5: "Execute ([SQL ''DROP USER IF EXISTS '', Identifier ''bob'', SQL '';''], [])
             \<in> set (history (fst (cycle orphan_world False bob_file)))"
    using t k d f s by (blast, blast, blast, simp, blast)
  have a': "configmap nameless_world = Found ''users: [{database: app}]''"
    and y': "''users: [{database: app}]'' \<noteq> []"
    and q': "\<not> query_raises nameless_world [Select ListUsers] ListRoles"
    by (simp_all add: nameless_world_def orphan_world_def quiet_def)
  have n: "safe_load nameless_world ''users: [{database: app}]'' = YamlError
        \<or> (\<exists>us. safe_load nameless_world ''users: [{database: app}]'' = Mapping (Some us)
                 \<and> list_ex (\<lambda>ud. ud_username ud = None) us)"
    by (simp add: nameless_world_def orphan_world_def quiet_def)
  have u': "snd (fetch_existing_users nameless_world []) = Some [''bob'', ''charlie'']"
    by (simp add: fetch_existing_users_def users_query_def nameless_world_def orphan_world_def
        quiet_def SYSTEM_ROLES_def)
  note t' = malformed_spec_drops_owned_users [OF a' y' n load_bob_file(2) u' q', of True]
  have 6: "parse_desired_users nameless_world ''users: [{database: app}]'' = Inr []"
    and 7: "Call (DropUser ''bob'') True \<in> set (history (fst (cycle nameless_world True bob_file)))"
    using t' k by blast+
  show ?thesis
    using a m load_bob_file(1) u 1 2 3 4 5 6 7 by (intro conjI)
qed

subsection \<open>C7: the drift count\<close>

text \<open>
  C7 says that the drift reported for the cycle is the number of creations plus the size of
  the deletion set after its restriction to the last-applied state. The code takes
  \<^verbatim>\<open>len(users_to_delete)\<close> before that restriction. With an empty desired spec, \<^verbatim>\<open>bob\<close>
  and \<^verbatim>\<open>charlie\<close> live and only \<^verbatim>\<open>bob\<close> in the last-applied state, the restricted
  deletion set is \<^verbatim>\<open>bob\<close> alone and the drift of the claim is 1; the cycle reports 2.
\<close>

theorem drift_counts_unowned_users:
  "configmap orphan_world = Found ''users: [''
   \<and> parse_desired_users orphan_world ''users: ['' = Inr []
   \<and> load_state orphan_world bob_file = Inr [(''bob'', bob_spec)]
   \<and> snd (fetch_existing_users orphan_world []) = Some [''bob'', ''charlie'']
   \<and> users_to_create [] [''bob'', ''charlie''] = []
   \<and> restricted_to_delete [] [''bob'', ''charlie''] [(''bob'', bob_spec)] = [''bob'']
   \<and> spec_drift [] [''bob'', ''charlie''] [(''bob'', bob_spec)] = 1
   \<and> drift_detected (stats (fst (cycle orphan_world False bob_file))) = 2"
  by code_simp

text \<open>
  C7 as amended: when the ConfigMap is fetched and parsed, the state file loads and the
  two catalogue queries answer, the drift reported for the cycle is the number of desired
  users that are not live plus the number of live users that are not desired, the latter
  not restricted to the last-applied state.
\<close>

theorem drift_counts_unrestricted_deletions:
  assumes "configmap w = Found y" and "parse_desired_users w y = Inr desired"
    and "load_state w file = Inr previous"
    and "snd (fetch_existing_users w []) = Some actual"
    and "\<not> query_raises w [Select ListUsers] ListRoles"
  shows "drift_detected (stats (fst (cycle w dry file)))
           = card (set (keys desired) - set actual) + card (set actual - set (keys desired))"
proof -
  have d: "distinct actual"
    using assms(4) by (auto simp: fetch_existing_users_def split: if_splits)
  have "drift_detected (stats (fst (cycle w dry file)))
          = length (users_to_create desired actual) + length (users_to_delete desired actual)"
    using assms(5)
    by (simp add: cycle_unfold [OF assms(1-4)] drift_reconcile_with new_stats_def)
  also have "length (users_to_create desired actual) = card (set (keys desired) - set actual)"
    by (simp add: users_to_create_def length_set_minus)
  also have "length (users_to_delete desired actual) = card (set actual - set (keys desired))"
    using d by (simp add: users_to_delete_def length_set_minus)
  finally show ?thesis .
qed

text \<open>The amended count in the world of the counterexample.\<close>

theorem drift_counts_unrestricted_deletions_witness:
  "configmap orphan_world = Found ''users: [''
   \<and> parse_desired_users orphan_world ''users: ['' = Inr []
   \<and> load_state orphan_world bob_file = Inr [(''bob'', bob_spec)]
   \<and> snd (fetch_existing_users orphan_world []) = Some [''bob'', ''charlie'']
   \<and> \<not> query_raises orphan_world [Select ListUsers] ListRoles
   \<and> drift_detected (stats (fst (cycle orphan_world True bob_file)))
       = card (set (keys ([] :: UserSpec dict)) - set [''bob'', ''charlie''])
         + card (set [''bob'', ''charlie''] - set (keys ([] :: UserSpec dict)))"
proof -
  have a: "configmap orphan_world = Found ''users: [''"
    by (simp add: orphan_world_def quiet_def)
  have b: "parse_desired_users orphan_world ''users: ['' = Inr []"
    by (simp add: parse_desired_users_def orphan_world_def quiet_def)
  have c: "snd (fetch_existing_users orphan_world []) = Some [''bob'', ''charlie'']"
    by (simp add: fetch_existing_users_def users_query_def orphan_world_def quiet_def
        SYSTEM_ROLES_def)
  have d: "\<not> query_raises orphan_world [Select ListUsers] ListRoles"
    by (simp add: orphan_world_def quiet_def)
  show ?thesis
    using a b c d load_bob_file(1)
      drift_counts_unrestricted_deletions [OF a b load_bob_file(1) c d, of True]
    by blast
qed

subsection \<open>C8: dry-run purity\<close>

text \<open>
  C8: in a dry-run cycle, for every world and every state file, \<^verbatim>\<open>save_state\<close> is never
  invoked and the state file stays as it was, no mutating statement is executed, committed
  or rolled back, and every mutating method of the gateway is called with \<^verbatim>\<open>dry_run\<close> set
  and returns without touching the database. The reads and the counters still run. When
  the ConfigMap is fetched and parsed, the state file loads and the two catalogue queries
  answer, both queries are in the history, the memberships are queried for every user to
  update whose roles changed since the previous state, and the counters of created roles,
  deleted users and created users hold the numbers of roles to create, of owned users to
  delete and of users to create whose password is found. When moreover the membership
  queries answer, with memberships that stay the same through the cycle, the counter of
  updated users holds the number of users to update whose memberships differ from the
  desired roles, and \<^verbatim>\<open>update_user_roles\<close> is called, dry, for each of them.
\<close>

theorem dry_run_purity:
  "state_file (fst (cycle w True file)) = file
   \<and> (\<forall>d. SaveState d \<notin> set (history (fst (cycle w True file))))
   \<and> (\<forall>s. Execute s \<notin> set (history (fst (cycle w True file))))
   \<and> Commit \<notin> set (history (fst (cycle w True file)))
   \<and> Rollback \<notin> set (history (fst (cycle w True file)))
   \<and> (\<forall>c. Call c False \<notin> set (history (fst (cycle w True file))))
   \<and> create_role w h r True = (h @ [Call (CreateRole r) True], True)
   \<and> drop_role w h r True = (h @ [Call (DropRole r) True], True)
   \<and> drop_user w h u True = (h @ [Call (DropUser u) True], True)
   \<and> create_user w h user_spec password True = (h @ [Call (CreateUser user_spec) True], True)
   \<and> update_user_roles w h u old_roles new_roles True
       = (h @ [Call (UpdateUserRoles u old_roles new_roles) True], True)
   \<and> (configmap w = Found y \<and> parse_desired_users w y = Inr desired
        \<and> load_state w file = Inr previous \<and> snd (fetch_existing_users w []) = Some actual
        \<and> \<not> query_raises w [Select ListUsers] ListRoles \<longrightarrow>
          Select ListUsers \<in> set (history (fst (cycle w True file)))
          \<and> Select ListRoles \<in> set (history (fst (cycle w True file)))
          \<and> roles_created (stats (fst (cycle w True file)))
               = length (set_minus (all_desired_roles desired)
                           (roles_query (pg_roles w [Select ListUsers])))
          \<and> users_deleted (stats (fst (cycle w True file)))
               = length (restricted_to_delete desired actual previous)
          \<and> users_created (stats (fst (cycle w True file)))
               = length (filter (password_found w) (users_to_create desired actual))
          \<and> (\<forall>v. v \<in> set (users_to_update desired actual) \<and> roles_changed desired previous v \<longrightarrow>
                 Select (UserRoles v) \<in> set (history (fst (cycle w True file)))))
   \<and> (configmap w = Found y \<and> parse_desired_users w y = Inr desired
        \<and> load_state w file = Inr previous \<and> snd (fetch_existing_users w []) = Some actual
        \<and> \<not> query_raises w [Select ListUsers] ListRoles
        \<and> (\<forall>h. pg_auth_members w h = members) \<and> (\<forall>h v. \<not> query_raises w h (UserRoles v)) \<longrightarrow>
          users_updated (stats (fst (cycle w True file)))
            = length (filter (update_needed desired previous members)
                        (users_to_update desired actual))
          \<and> (\<forall>v s. v \<in> set (users_to_update desired actual)
                   \<and> update_needed desired previous members v \<and> dict_get desired v = Some s \<longrightarrow>
                 Call (UpdateUserRoles v (user_roles_query members v) (remdups (roles s))) True
                   \<in> set (history (fst (cycle w True file)))))"
proof -
  have 1: "state_file (fst (cycle w True file)) = file"
    by (rule state_file_cycle_dry)
  have 2: "SaveState d \<notin> set (history (fst (cycle w True file)))" for d
    using cycle_dry_events [of "SaveState d" w "file"] by auto
  have 3: "Execute s \<notin> set (history (fst (cycle w True file)))" for s
    using cycle_dry_events [of "Execute s" w "file"] by auto
  have 4: "Commit \<notin> set (history (fst (cycle w True file)))"
    using cycle_dry_events [of Commit w "file"] by auto
  have 5: "Rollback \<notin> set (history (fst (cycle w True file)))"
    using cycle_dry_events [of Rollback w "file"] by auto
  have 6: "Call c False \<notin> set (history (fst (cycle w True file)))" for c
    using cycle_dry_events [of "Call c False" w "file"] by auto
  have 7: "configmap w = Found y \<and> parse_desired_users w y = Inr desired
        \<and> load_state w file = Inr previous \<and> snd (fetch_existing_users w []) = Some actual
        \<and> \<not> query_raises w [Select ListUsers] ListRoles \<longrightarrow>
          Select ListUsers \<in> set (history (fst (cycle w True file)))
          \<and> Select ListRoles \<in> set (history (fst (cycle w True file)))
          \<and> roles_created (stats (fst (cycle w True file)))
               = length (set_minus (all_desired_roles desired)
                           (roles_query (pg_roles w [Select ListUsers])))
          \<and> users_deleted (stats (fst (cycle w True file)))
               = length (restricted_to_delete desired actual previous)
          \<and> users_created (stats (fst (cycle w True file)))
               = length (filter (password_found w) (users_to_create desired actual))
          \<and> (\<forall>v. v \<in> set (users_to_update desired actual) \<and> roles_changed desired previous v \<longrightarrow>
                 Select (UserRoles v) \<in> set (history (fst (cycle w True file))))"
    using cycle_reads [of w y desired "file" previous actual True]
      dry_counters [of w y desired "file" previous actual]
      cycle_membership_reads [of w y desired "file" previous actual _ True]
    by (intro impI) simp
  have 8: "configmap w = Found y \<and> parse_desired_users w y = Inr desired
        \<and> load_state w file = Inr previous \<and> snd (fetch_existing_users w []) = Some actual
        \<and> \<not> query_raises w [Select ListUsers] ListRoles
        \<and> (\<forall>h. pg_auth_members w h = members) \<and> (\<forall>h v. \<not> query_raises w h (UserRoles v)) \<longrightarrow>
          users_updated (stats (fst (cycle w True file)))
            = length (filter (update_needed desired previous members)
                        (users_to_update desired actual))
          \<and> (\<forall>v s. v \<in> set (users_to_update desired actual)
                   \<and> update_needed desired previous members v \<and> dict_get desired v = Some s \<longrightarrow>
                 Call (UpdateUserRoles v (user_roles_query members v) (remdups (roles s))) True
                   \<in> set (history (fst (cycle w True file))))"
    using dry_updates [of w y desired "file" previous actual members]
    by (intro impI) simp
  show ?thesis
    by (intro conjI allI 1 2 3 4 5 6 7 8 dry_calls)
qed

text \<open>
  A dry run in the busy world: one role, one deletion, one creation and one update are
  counted, and the memberships of \<^verbatim>\<open>dave\<close> are read.
\<close>

theorem dry_run_purity_witness:
  "state_file (fst (cycle busy_world True busy_file)) = busy_file
   \<and> (\<forall>d. SaveState d \<notin> set (history (fst (cycle busy_world True busy_file))))
   \<and> (\<forall>s. Execute s \<notin> set (history (fst (cycle busy_world True busy_file))))
   \<and> (\<forall>c. Call c False \<notin> set (history (fst (cycle busy_world True busy_file))))
   \<and> drop_user busy_world [] ''bob'' True = ([Call (DropUser ''bob'') True], True)
   \<and> Select ListUsers \<in> set (history (fst (cycle busy_world True busy_file)))
   \<and> Select ListRoles \<in> set (history (fst (cycle busy_world True busy_file)))
   \<and> Call (DropUser ''bob'') True \<in> set (history (fst (cycle busy_world True busy_file)))
   \<and> roles_created (stats (fst (cycle busy_world True busy_file))) = 1
   \<and> users_deleted (stats (fst (cycle busy_world True busy_file))) = 1
   \<and> users_created (stats (fst (cycle busy_world True busy_file))) = 1
   \<and> Select (UserRoles ''dave'') \<in> set (history (fst (cycle busy_world True busy_file)))
   \<and> users_updated (stats (fst (cycle busy_world True busy_file))) = 1
   \<and> Call (UpdateUserRoles ''dave'' [''ro''] [''rw'']) True
        \<in> set (history (fst (cycle busy_world True busy_file)))"
proof -
  let ?actual = "[''bob'', ''charlie'', ''dave'', ''erin'', ''ro'']"
  let ?members = "[(''ro'', ''dave''), (''ro'', ''erin'')]"
  let ?dave = "\<lparr>username = ''dave'', database = ''app'', roles = [''rw''], privileges = None\<rparr>"
  note t = dry_run_purity [of busy_world busy_file "[]" "''bob''" "''bob''" alice_spec "''p1''"
      "[]" "[]" "busy_yaml" busy_desired busy_previous ?actual ?members]
  have a: "configmap busy_world = Found busy_yaml"
    by (simp add: busy_world_def quiet_def)
  have p: "parse_desired_users busy_world busy_yaml = Inr busy_desired"
    by code_simp
  have u: "snd (fetch_existing_users busy_world []) = Some ?actual"
    by code_simp
  have q: "\<not> query_raises busy_world [Select ListUsers] ListRoles"
    and m: "\<forall>h. pg_auth_members busy_world h = ?members"
    and r: "\<forall>h v. \<not> query_raises busy_world h (UserRoles v)"
    by (simp_all add: busy_world_def quiet_def)
  have n1: "length (set_minus (all_desired_roles busy_desired)
                           (roles_query (pg_roles busy_world [Select ListUsers]))) = 1"
    by code_simp
  have n2: "length (restricted_to_delete busy_desired ?actual busy_previous) = 1"
    by code_simp
  have n3: "length (filter (password_found busy_world) (users_to_create busy_desired ?actual)) = 1"
    by code_simp
  have n4: "length (filter (update_needed busy_desired busy_previous ?members)
                      (users_to_update busy_desired ?actual)) = 1"
    by code_simp
  have d: "''dave'' \<in> set (users_to_update busy_desired ?actual)"
    "roles_changed busy_desired busy_previous ''dave''"
    "update_needed busy_desired busy_previous ?members ''dave''"
    "dict_get busy_desired ''dave'' = Some ?dave"
    "user_roles_query ?members ''dave'' = [''ro'']"
    "remdups (roles ?dave) = [''rw'']"
    by code_simp+
  have b: "Call (DropUser ''bob'') True \<in> set (history (fst (cycle busy_world True busy_file)))"
    by code_simp
  have c1: "Select ListUsers \<in> set (history (fst (cycle busy_world True busy_file)))
          \<and> Select ListRoles \<in> set (history (fst (cycle busy_world True busy_file)))
          \<and> roles_created (stats (fst (cycle busy_world True busy_file)))
               = length (set_minus (all_desired_roles busy_desired)
                           (roles_query (pg_roles busy_world [Select ListUsers])))
          \<and> users_deleted (stats (fst (cycle busy_world True busy_file)))
               = length (restricted_to_delete busy_desired ?actual busy_previous)
          \<and> users_created (stats (fst (cycle busy_world True busy_file)))
               = length (filter (password_found busy_world) (users_to_create busy_desired ?actual))
          \<and> Select (UserRoles ''dave'') \<in> set (history (fst (cycle busy_world True busy_file)))"
    using t a p u q load_busy_file d(1,2) by blast
  have c2: "users_updated (stats (fst (cycle busy_world True busy_file)))
            = length (filter (update_needed busy_desired busy_previous ?members)
                        (users_to_update busy_desired ?actual))
          \<and> Call (UpdateUserRoles ''dave'' (user_roles_query ?members ''dave'')
                     (remdups (roles ?dave))) True
               \<in> set (history (fst (cycle busy_world True busy_file)))"
    using t a p u q m r load_busy_file d(1,3,4) by blast
  have 1: "state_file (fst (cycle busy_world True busy_file)) = busy_file"
    and 2: "\<forall>d. SaveState d \<notin> set (history (fst (cycle busy_world True busy_file)))"
    and 3: "\<forall>s. Execute s \<notin> set (history (fst (cycle busy_world True busy_file)))"
    and 4: "\<forall>c. Call c False \<notin> set (history (fst (cycle busy_world True busy_file)))"
    and 5: "drop_user busy_world [] ''bob'' True = ([Call (DropUser ''bob'') True], True)"
    using t by simp_all
  show ?thesis
    using 1 2 3 4 5 b c1 c2 n1 n2 n3 n4 d(5,6) by simp
qed

end
